theory Spec2Isabelle
  imports Complex_Main
begin

section \<open>Tensors of the runtime the layers execute against\<close>

text \<open>
  The layers of \<^verbatim>\<open>layers.py\<close> are thin compositions of tensor primitives. A tensor is
  modelled as a shape together with its elements in row-major order (the layout of a
  contiguous tensor); element values are real numbers, so every statement below is about
  exact arithmetic and says nothing about rounding, infinities or NaN.  Errors raised by
  Python or by the tensor runtime are values of type \<open>error\<close>.
\<close>

datatype error = ZeroDivisionError | IndexError | RuntimeError | NotImplementedError | AttributeError

record tensor =
  shape :: "nat list"
  data :: "real list"

definition numel :: "tensor \<Rightarrow> nat" where
  "numel t = prod_list (shape t)"

definition well_shaped :: "tensor \<Rightarrow> bool" where
  "well_shaped t \<longleftrightarrow> length (data t) = prod_list (shape t)"

definition ebind :: "error + 'a \<Rightarrow> ('a \<Rightarrow> error + 'b) \<Rightarrow> error + 'b" where
  "ebind m f = (case m of Inl e \<Rightarrow> Inl e | Inr v \<Rightarrow> f v)"

text \<open>Row-major offset of a multi-index, and the multi-index of an offset.\<close>

fun ravel :: "nat list \<Rightarrow> nat list \<Rightarrow> nat" where
  "ravel (d # ds) (i # is) = i * prod_list ds + ravel ds is"
| "ravel _ _ = 0"

fun unravel :: "nat list \<Rightarrow> nat \<Rightarrow> nat list" where
  "unravel [] k = []"
| "unravel (d # ds) k = (k div prod_list ds) # unravel ds (k mod prod_list ds)"

definition valid_index :: "nat list \<Rightarrow> nat list \<Rightarrow> bool" where
  "valid_index ds is \<longleftrightarrow> list_all2 (<) is ds"

definition elem :: "tensor \<Rightarrow> nat list \<Rightarrow> real" where
  "elem t is = data t ! ravel (shape t) is"

definition tabulate :: "nat list \<Rightarrow> (nat list \<Rightarrow> real) \<Rightarrow> tensor" where
  "tabulate ds f = \<lparr>shape = ds, data = map (\<lambda>k. f (unravel ds k)) [0..<prod_list ds]\<rparr>"

text \<open>\<^verbatim>\<open>x.size(i)\<close>: the runtime raises IndexError for a dimension out of range.\<close>

definition size_dim :: "tensor \<Rightarrow> nat \<Rightarrow> error + nat" where
  "size_dim t i = (if i < length (shape t) then Inr (shape t ! i) else Inl IndexError)"

lemma ebind_Inr [simp]: "ebind (Inr v) f = f v"
  by (simp add: ebind_def)

lemma ebind_Inl [simp]: "ebind (Inl e) f = Inl e"
  by (simp add: ebind_def)

lemma valid_index_Nil [simp]: "valid_index [] is \<longleftrightarrow> is = []"
  by (simp add: valid_index_def)

lemma valid_index_Cons [simp]:
  "valid_index (d # ds) (i # is) \<longleftrightarrow> i < d \<and> valid_index ds is"
  by (simp add: valid_index_def)

lemma valid_index_Nil_right [simp]: "valid_index ds [] \<longleftrightarrow> ds = []"
  by (simp add: valid_index_def)

lemma valid_index_length: "valid_index ds is \<Longrightarrow> length is = length ds"
  by (simp add: valid_index_def list_all2_lengthD)

lemma valid_index_nth: "valid_index ds is \<Longrightarrow> j < length ds \<Longrightarrow> is ! j < ds ! j"
  by (simp add: valid_index_def list_all2_nthD2)

lemma ravel_less: "valid_index ds is \<Longrightarrow> ravel ds is < prod_list ds"
proof (induction ds "is" rule: ravel.induct)
  case (1 d ds i "is")
  then have i: "i < d" and r: "ravel ds is < prod_list ds"
    by simp_all
  have "i * prod_list ds + ravel ds is < i * prod_list ds + prod_list ds"
    using r by simp
  also have "\<dots> = Suc i * prod_list ds"
    by simp
  also have "\<dots> \<le> d * prod_list ds"
    using i by (intro mult_le_mono1) simp
  finally show ?case
    by simp
qed simp_all

lemma unravel_ravel: "valid_index ds is \<Longrightarrow> unravel ds (ravel ds is) = is"
proof (induction ds "is" rule: ravel.induct)
  case (1 d ds i "is")
  then have r: "ravel ds is < prod_list ds" and v: "valid_index ds is"
    by (simp_all add: ravel_less)
  with 1 show ?case
    by simp
qed simp_all

lemma valid_unravel: "k < prod_list ds \<Longrightarrow> valid_index ds (unravel ds k)"
proof (induction ds arbitrary: k)
  case Nil
  then show ?case by simp
next
  case (Cons d ds)
  have pos: "0 < prod_list ds"
    using Cons.prems by (cases "prod_list ds = 0") simp_all
  have "k div prod_list ds < d"
    using Cons.prems pos by (simp add: less_mult_imp_div_less mult.commute)
  moreover have "valid_index ds (unravel ds (k mod prod_list ds))"
    using pos by (intro Cons.IH) simp
  ultimately show ?case
    by simp
qed

lemma ravel_unravel: "k < prod_list ds \<Longrightarrow> ravel ds (unravel ds k) = k"
proof (induction ds arbitrary: k)
  case Nil
  then show ?case by simp
next
  case (Cons d ds)
  have pos: "0 < prod_list ds"
    using Cons.prems by (cases "prod_list ds = 0") simp_all
  have "ravel ds (unravel ds (k mod prod_list ds)) = k mod prod_list ds"
    using pos by (intro Cons.IH) simp
  then show ?case
    by simp
qed

lemma shape_tabulate [simp]: "shape (tabulate ds f) = ds"
  by (simp add: tabulate_def)

lemma well_shaped_tabulate [simp]: "well_shaped (tabulate ds f)"
  by (simp add: tabulate_def well_shaped_def)

lemma data_tabulate_nth:
  "k < prod_list ds \<Longrightarrow> data (tabulate ds f) ! k = f (unravel ds k)"
  by (simp add: tabulate_def)

lemma elem_tabulate: "valid_index ds is \<Longrightarrow> elem (tabulate ds f) is = f is"
  by (simp add: elem_def tabulate_def ravel_less unravel_ravel)

lemma tensor_eqI:
  assumes "well_shaped a" and "well_shaped b" and "shape a = shape b"
    and "\<And>is. valid_index (shape a) is \<Longrightarrow> elem a is = elem b is"
  shows "a = b"
proof -
  have "data a = data b"
  proof (rule nth_equalityI)
    show "length (data a) = length (data b)"
      using assms(1-3) by (simp add: well_shaped_def)
  next
    fix k assume "k < length (data a)"
    then have k: "k < prod_list (shape a)"
      using assms(1) by (simp add: well_shaped_def)
    then have "elem a (unravel (shape a) k) = elem b (unravel (shape a) k)"
      by (intro assms(4) valid_unravel)
    then show "data a ! k = data b ! k"
      using k assms(3) by (simp add: elem_def ravel_unravel)
  qed
  then show ?thesis
    using assms(3) by simp
qed

subsection \<open>Elementwise operations and full reductions\<close>

definition map_tensor :: "(real \<Rightarrow> real) \<Rightarrow> tensor \<Rightarrow> tensor" where
  "map_tensor g t = t\<lparr>data := map g (data t)\<rparr>"

text \<open>\<^verbatim>\<open>x.mul(s)\<close>, \<^verbatim>\<open>x.div(s)\<close> and \<^verbatim>\<open>x + s\<close> for a Python number \<open>s\<close>;
  \<^verbatim>\<open>x.pow(2.)\<close>; \<^verbatim>\<open>x.sqrt()\<close>; \<^verbatim>\<open>x.mean()\<close> over all elements.\<close>

definition mul_scalar :: "tensor \<Rightarrow> real \<Rightarrow> tensor" where
  "mul_scalar t s = map_tensor (\<lambda>v. v * s) t"

definition div_scalar :: "tensor \<Rightarrow> real \<Rightarrow> tensor" where
  "div_scalar t s = map_tensor (\<lambda>v. v / s) t"

definition add_scalar :: "tensor \<Rightarrow> real \<Rightarrow> tensor" where
  "add_scalar t s = map_tensor (\<lambda>v. v + s) t"

definition pow2 :: "tensor \<Rightarrow> tensor" where
  "pow2 t = map_tensor (\<lambda>v. v ^ 2) t"

definition sqrt_tensor :: "tensor \<Rightarrow> tensor" where
  "sqrt_tensor t = map_tensor sqrt t"

definition mean_all :: "tensor \<Rightarrow> real" where
  "mean_all t = sum_list (data t) / real (length (data t))"

subsection \<open>Views\<close>

text \<open>
  \<^verbatim>\<open>view\<close> and \<^verbatim>\<open>reshape\<close> of a contiguous tensor keep the elements and change the
  shape.  The requested sizes are Python integers; one of them may be \<open>-1\<close> and is then
  inferred.  The runtime refuses a size below \<open>-1\<close>, a second \<open>-1\<close>, a \<open>-1\<close> when the
  other sizes multiply to zero or do not divide the element count, and otherwise a shape
  whose element count differs.
\<close>

definition infer_size :: "int list \<Rightarrow> nat \<Rightarrow> error + nat list" where
  "infer_size dims n =
     (if list_ex (\<lambda>d. d < - 1) dims \<or> 1 < length (filter (\<lambda>d. d = - 1) dims)
      then Inl RuntimeError
      else
        let newsize = nat (prod_list (filter (\<lambda>d. 0 \<le> d) dims)) in
        if - 1 \<in> set dims then
          (if 0 < newsize \<and> n mod newsize = 0
           then Inr (map (\<lambda>d. if d = - 1 then n div newsize else nat d) dims)
           else Inl RuntimeError)
        else if n = newsize then Inr (map nat dims)
        else Inl RuntimeError)"

definition view :: "tensor \<Rightarrow> int list \<Rightarrow> error + tensor" where
  "view t dims = ebind (infer_size dims (numel t)) (\<lambda>s. Inr (t\<lparr>shape := s\<rparr>))"

definition reshape :: "tensor \<Rightarrow> int list \<Rightarrow> error + tensor" where
  "reshape t dims = view t dims"

subsection \<open>Broadcasting\<close>

text \<open>
  Shapes are aligned at their last dimension; two sizes are compatible when they are
  equal or one of them is 1.  An operand is read at the index of the result with the
  leading dimensions it lacks dropped and its dimensions of size 1 read at 0.
\<close>

fun broadcast_rev :: "nat list \<Rightarrow> nat list \<Rightarrow> error + nat list" where
  "broadcast_rev [] ys = Inr ys"
| "broadcast_rev (x # xs) [] = Inr (x # xs)"
| "broadcast_rev (x # xs) (y # ys) =
     (if x = y \<or> y = 1 then ebind (broadcast_rev xs ys) (\<lambda>r. Inr (x # r))
      else if x = 1 then ebind (broadcast_rev xs ys) (\<lambda>r. Inr (y # r))
      else Inl RuntimeError)"

definition broadcast_shapes :: "nat list \<Rightarrow> nat list \<Rightarrow> error + nat list" where
  "broadcast_shapes a b = ebind (broadcast_rev (rev a) (rev b)) (\<lambda>r. Inr (rev r))"

definition bindex :: "nat list \<Rightarrow> nat list \<Rightarrow> nat list" where
  "bindex ds is = map2 (\<lambda>d i. if d = 1 then 0 else i) ds (drop (length is - length ds) is)"

definition broadcast_op :: "(real \<Rightarrow> real \<Rightarrow> real) \<Rightarrow> tensor \<Rightarrow> tensor \<Rightarrow> error + tensor" where
  "broadcast_op g a b =
     ebind (broadcast_shapes (shape a) (shape b)) (\<lambda>s.
       Inr (tabulate s (\<lambda>is. g (elem a (bindex (shape a) is)) (elem b (bindex (shape b) is)))))"

definition tensor_add :: "tensor \<Rightarrow> tensor \<Rightarrow> error + tensor" where
  "tensor_add = broadcast_op (+)"

definition tensor_sub :: "tensor \<Rightarrow> tensor \<Rightarrow> error + tensor" where
  "tensor_sub = broadcast_op (-)"

definition tensor_div :: "tensor \<Rightarrow> tensor \<Rightarrow> error + tensor" where
  "tensor_div = broadcast_op (/)"

text \<open>\<^verbatim>\<open>a.expand_as(b)\<close>: \<open>a\<close> broadcast to exactly the shape of \<open>b\<close>.\<close>

definition expand_as :: "tensor \<Rightarrow> tensor \<Rightarrow> error + tensor" where
  "expand_as a b =
     (if broadcast_shapes (shape a) (shape b) = Inr (shape b)
      then Inr (tabulate (shape b) (\<lambda>is. elem a (bindex (shape a) is)))
      else Inl RuntimeError)"

subsection \<open>Reduction along a dimension, repetition, concatenation\<close>

text \<open>\<^verbatim>\<open>torch.mean(t, dim=d, keepdim=k)\<close>.  The mean over a dimension of size 0 is NaN
  in the runtime; here it is the value of \<open>0 / 0\<close>, and no statement below relies on it.\<close>

definition mean_dim :: "tensor \<Rightarrow> nat \<Rightarrow> bool \<Rightarrow> error + tensor" where
  "mean_dim t d keepdim =
     (let s = shape t in
      if d < length s then
        Inr (if keepdim
             then tabulate (s[d := 1])
                    (\<lambda>is. (\<Sum>j\<leftarrow>[0..<s ! d]. elem t (is[d := j])) / real (s ! d))
             else tabulate (take d s @ drop (Suc d) s)
                    (\<lambda>is. (\<Sum>j\<leftarrow>[0..<s ! d]. elem t (take d is @ j # drop d is)) / real (s ! d)))
      else Inl IndexError)"

text \<open>\<^verbatim>\<open>t.repeat(r1, ..., rk)\<close>: the tensor tiled \<open>ri\<close> times along dimension \<open>i\<close>.\<close>

definition repeat :: "tensor \<Rightarrow> int list \<Rightarrow> error + tensor" where
  "repeat t reps =
     (if length reps < length (shape t) \<or> list_ex (\<lambda>r. r < 0) reps then Inl RuntimeError
      else
        let pad = length reps - length (shape t);
            s = replicate pad 1 @ shape t
        in Inr (tabulate (map2 (\<lambda>r d. nat r * d) reps s)
                  (\<lambda>is. elem t (drop pad (map2 (\<lambda>i d. i mod d) is s)))))"

text \<open>\<^verbatim>\<open>torch.cat([a, b], d)\<close>: the shapes must agree outside dimension \<open>d\<close>.\<close>

definition cat :: "tensor \<Rightarrow> tensor \<Rightarrow> nat \<Rightarrow> error + tensor" where
  "cat a b d =
     (let sa = shape a; sb = shape b in
      if \<not> d < length sa then Inl IndexError
      else if length sa = length sb \<and> sa[d := 0] = sb[d := 0] then
        Inr (tabulate (sa[d := sa ! d + sb ! d])
               (\<lambda>is. if is ! d < sa ! d then elem a is else elem b (is[d := is ! d - sa ! d])))
      else Inl RuntimeError)"

subsection \<open>Linear map and nearest-neighbour interpolation\<close>

text \<open>\<^verbatim>\<open>F.linear(x, w)\<close> with no bias: the last dimension of \<open>x\<close> is contracted with
  the second dimension of the weight \<open>w\<close> of shape \<open>[out_features, in_features]\<close>.\<close>

definition linear :: "tensor \<Rightarrow> tensor \<Rightarrow> error + tensor" where
  "linear x w =
     (case shape w of
        [outf, inpf] \<Rightarrow>
          if shape x \<noteq> [] \<and> last (shape x) = inpf then
            Inr (tabulate (butlast (shape x) @ [outf])
                   (\<lambda>is. \<Sum>i\<leftarrow>[0..<inpf]. elem x (butlast is @ [i]) * elem w [last is, i]))
          else Inl RuntimeError
      | _ \<Rightarrow> Inl RuntimeError)"

text \<open>
  \<^verbatim>\<open>F.interpolate(x, scale_factor=sf, mode='nearest')\<close> for an integer scale factor:
  every dimension after the first two grows by the factor, and the element at an output
  position is read at the source position \<open>min (floor (i / sf)) (size - 1)\<close>.  The
  runtime takes inputs of 3 to 5 dimensions with a non-empty channel and spatial part.
\<close>

definition interpolate_nearest :: "tensor \<Rightarrow> nat \<Rightarrow> error + tensor" where
  "interpolate_nearest x sf =
     (let s = shape x in
      if length s < 3 \<or> 5 < length s then Inl NotImplementedError
      else if prod_list (tl s) = 0 then Inl RuntimeError
      else Inr (tabulate (take 2 s @ map (\<lambda>d. d * sf) (drop 2 s))
                  (\<lambda>is. elem x (take 2 is @
                     map2 (\<lambda>i d. min (i div sf) (d - 1)) (drop 2 is) (drop 2 s)))))"

subsection \<open>Python integer arithmetic\<close>

text \<open>\<^verbatim>\<open>a % b\<close> on integers (the sign follows the divisor, as \<open>mod\<close> on \<open>int\<close> does) and
  \<^verbatim>\<open>int(a / b)\<close>, the true quotient truncated towards zero.\<close>

definition py_mod :: "int \<Rightarrow> int \<Rightarrow> error + int" where
  "py_mod a b = (if b = 0 then Inl ZeroDivisionError else Inr (a mod b))"

definition py_int_truediv :: "int \<Rightarrow> int \<Rightarrow> error + int" where
  "py_int_truediv a b =
     (if b = 0 then Inl ZeroDivisionError else Inr (sgn a * sgn b * (\<bar>a\<bar> div \<bar>b\<bar>)))"

section \<open>Equalized learning rate\<close>

text \<open>
  The three constructors differ in the module they wrap: a convolution with weight
  \<open>[out, in, k, k]\<close>, a transposed convolution with weight \<open>[in, out, k, k]\<close>, a linear
  map with weight \<open>[out, in]\<close>.  The weight is filled by the random initializer
  \<^verbatim>\<open>kaiming_normal_\<close>; the constructors below take the tensor it left as the argument
  \<open>w0\<close>.  Then lines 17-18 (34-35, 51-52) compute the scale and divide the weight.
\<close>

record EqualizedConv =
  conv_bias :: bool
  conv_weight :: tensor
  conv_stride :: nat
  conv_padding :: nat
  conv_bias_param :: "tensor option"
  conv_scale :: real

record EqualizedLinear =
  lin_bias :: bool
  lin_weight :: tensor
  lin_bias_param :: "tensor option"
  lin_scale :: real

definition zeros :: "nat \<Rightarrow> tensor" where
  "zeros n = \<lparr>shape = [n], data = replicate n 0\<rparr>"

definition EqualizedConv2d_init ::
  "nat \<Rightarrow> nat \<Rightarrow> nat \<Rightarrow> nat \<Rightarrow> nat \<Rightarrow> bool \<Rightarrow> tensor \<Rightarrow> EqualizedConv" where
  "EqualizedConv2d_init in_features out_features kernel_size stride padding bias w0 =
     (let scale = sqrt (mean_all (pow2 w0)) in
      \<lparr>conv_bias = bias,
       conv_weight = div_scalar w0 scale,
       conv_stride = stride,
       conv_padding = padding,
       conv_bias_param = (if bias then Some (zeros out_features) else None),
       conv_scale = scale\<rparr>)"

definition EqualizedDeconv2d_init ::
  "nat \<Rightarrow> nat \<Rightarrow> nat \<Rightarrow> nat \<Rightarrow> nat \<Rightarrow> bool \<Rightarrow> tensor \<Rightarrow> EqualizedConv" where
  "EqualizedDeconv2d_init in_features out_features kernel_size stride padding bias w0 =
     (let scale = sqrt (mean_all (pow2 w0)) in
      \<lparr>conv_bias = bias,
       conv_weight = div_scalar w0 scale,
       conv_stride = stride,
       conv_padding = padding,
       conv_bias_param = (if bias then Some (zeros out_features) else None),
       conv_scale = scale\<rparr>)"

definition EqualizedLinear_init :: "nat \<Rightarrow> nat \<Rightarrow> bool \<Rightarrow> tensor \<Rightarrow> EqualizedLinear" where
  "EqualizedLinear_init in_features out_features bias w0 =
     (let scale = sqrt (mean_all (pow2 w0)) in
      \<lparr>lin_bias = bias,
       lin_weight = div_scalar w0 scale,
       lin_bias_param = (if bias then Some (zeros out_features) else None),
       lin_scale = scale\<rparr>)"

text \<open>\<^verbatim>\<open>EqualizedLinear.forward\<close> (lines 53-58).  It reads \<^verbatim>\<open>self.scale\<close>,
  \<^verbatim>\<open>self.linear.weight\<close> and \<^verbatim>\<open>self.bias_param\<close> and assigns no attribute.\<close>

definition EqualizedLinear_forward :: "EqualizedLinear \<Rightarrow> tensor \<Rightarrow> error + tensor" where
  "EqualizedLinear_forward self x =
     (let x1 = mul_scalar x (lin_scale self) in
      ebind (size_dim x1 0) (\<lambda>n.
      ebind (view x1 [int n, - 1]) (\<lambda>x2.
      ebind (linear x2 (lin_weight self)) (\<lambda>y.
        if lin_bias self then
          (case lin_bias_param self of
             None \<Rightarrow> Inl AttributeError
           | Some b \<Rightarrow>
               ebind (view b [1, - 1]) (\<lambda>b1.
               ebind (expand_as b1 y) (\<lambda>b2.
               tensor_add y b2)))
        else Inr y))))"

section \<open>Minibatch standard deviation\<close>

text \<open>Lines 69 and 70: the group size \<open>G\<close> and the number of groups \<open>M\<close>.\<close>

definition group_G :: "int \<Rightarrow> int \<Rightarrow> error + int" where
  "group_G group_size n =
     ebind (py_mod n group_size) (\<lambda>r. Inr (if r = 0 then min group_size n else n))"

definition group_M :: "int \<Rightarrow> int \<Rightarrow> error + int" where
  "group_M n G = py_int_truediv n G"

text \<open>Lines 71 to 76: the feature map of group statistics, of shape \<open>[N, 1, H, W]\<close>.\<close>

definition stddev_fmap :: "int \<Rightarrow> int \<Rightarrow> tensor \<Rightarrow> error + tensor" where
  "stddev_fmap G M x =
     ebind (size_dim x 1) (\<lambda>c.
     ebind (size_dim x 2) (\<lambda>h.
     ebind (size_dim x 3) (\<lambda>w.
     ebind (reshape x [G, M, int c, int h, int w]) (\<lambda>y1.
     ebind (mean_dim y1 0 True) (\<lambda>m1.
     ebind (tensor_sub y1 m1) (\<lambda>y2.
     ebind (mean_dim (pow2 y2) 0 False) (\<lambda>y3.
     let y4 = sqrt_tensor (add_scalar y3 (1 / 10 ^ 8)) in
     ebind (view y4 [M, - 1]) (\<lambda>v.
     ebind (mean_dim v 1 False) (\<lambda>y5.
     ebind (view y5 [M, 1, 1, 1]) (\<lambda>y6.
     repeat y6 [G, 1, int h, int w]))))))))))"

text \<open>\<^verbatim>\<open>MinibatchStddev.forward\<close> (lines 68-77), with \<open>group_size\<close> the attribute set by
  the constructor.\<close>

definition MinibatchStddev_forward :: "int \<Rightarrow> tensor \<Rightarrow> error + tensor" where
  "MinibatchStddev_forward group_size x =
     ebind (size_dim x 0) (\<lambda>n.
     ebind (group_G group_size (int n)) (\<lambda>G.
     ebind (group_M (int n) G) (\<lambda>M.
     ebind (stddev_fmap G M x) (\<lambda>y.
     cat x y 1))))"

section \<open>Pixelwise feature vector normalization\<close>

definition PixelwiseNorm_forward :: "tensor \<Rightarrow> error + tensor" where
  "PixelwiseNorm_forward x =
     ebind (mean_dim (pow2 x) 1 True) (\<lambda>m.
     let y = add_scalar m (1 / 10 ^ 8) in
     tensor_div x (sqrt_tensor y))"

section \<open>Nearest-neighbor upsample\<close>

definition Upsample_forward :: "tensor \<Rightarrow> error + tensor" where
  "Upsample_forward x = interpolate_nearest x 2"

section \<open>Smoothly fading in new layers\<close>

text \<open>
  \<^verbatim>\<open>class Fadein\<close>: the only state is the Python number \<^verbatim>\<open>alpha\<close>.  The constructor
  stores its argument (default \<^verbatim>\<open>0.\<close>) as it is; \<^verbatim>\<open>update_alpha\<close> adds the delta and
  applies \<^verbatim>\<open>max(0, min(alpha, 1.0))\<close>.
\<close>

record Fadein =
  alpha :: real

definition Fadein_init :: "real \<Rightarrow> Fadein" where
  "Fadein_init a = \<lparr>alpha = a\<rparr>"

definition Fadein_default :: Fadein where
  "Fadein_default = Fadein_init 0"

definition update_alpha :: "Fadein \<Rightarrow> real \<Rightarrow> Fadein" where
  "update_alpha self delta =
     (let self1 = self\<lparr>alpha := alpha self + delta\<rparr>
      in self1\<lparr>alpha := max 0 (min (alpha self1) 1)\<rparr>)"

definition get_alpha :: "Fadein \<Rightarrow> real" where
  "get_alpha self = alpha self"

text \<open>\<^verbatim>\<open>ConcatTable.forward\<close> applies both layers to the same input and returns the
  two outputs as a list; \<^verbatim>\<open>Fadein.forward\<close> reads elements 0 and 1 of such a list.\<close>

definition ConcatTable_forward ::
  "(tensor \<Rightarrow> error + tensor) \<Rightarrow> (tensor \<Rightarrow> error + tensor) \<Rightarrow> tensor \<Rightarrow> error + tensor list" where
  "ConcatTable_forward layer1 layer2 x =
     ebind (layer1 x) (\<lambda>y1. ebind (layer2 x) (\<lambda>y2. Inr [y1, y2]))"

definition Fadein_forward :: "Fadein \<Rightarrow> tensor list \<Rightarrow> error + tensor" where
  "Fadein_forward self x =
     (case x of
        x0 # x1 # _ \<Rightarrow> tensor_add (mul_scalar x0 (1 - alpha self)) (mul_scalar x1 (alpha self))
      | _ \<Rightarrow> Inl IndexError)"

text \<open>
  C5 (amended).  The constructor does not clamp: \<open>alpha\<close> lies in \<open>[0, 1]\<close> after
  construction exactly when the constructor argument does (the default \<open>0.\<close> does).
  After every \<open>update_alpha\<close>, whatever the delta and whatever the earlier value,
  \<open>alpha\<close> lies in \<open>[0, 1]\<close>; the update is total.  Advancing by \<open>0.3\<close> from \<open>0.9\<close>
  gives exactly \<open>1\<close>, advancing by \<open>-0.5\<close> from \<open>0.2\<close> gives exactly \<open>0\<close>.
\<close>

theorem Fadein_alpha_clamped:
  "get_alpha Fadein_default = 0
   \<and> (0 \<le> get_alpha (Fadein_init a) \<and> get_alpha (Fadein_init a) \<le> 1 \<longleftrightarrow> 0 \<le> a \<and> a \<le> 1)
   \<and> 0 \<le> get_alpha (update_alpha self delta)
   \<and> get_alpha (update_alpha self delta) \<le> 1
   \<and> get_alpha (update_alpha self delta) = max 0 (min (get_alpha self + delta) 1)
   \<and> get_alpha (update_alpha (Fadein_init (9/10)) (3/10)) = 1
   \<and> get_alpha (update_alpha (Fadein_init (2/10)) (- (5/10))) = 0"
  by (simp add: Fadein_default_def Fadein_init_def update_alpha_def get_alpha_def Let_def)

text \<open>
  C5 as stated fails at construction: \<^verbatim>\<open>Fadein(alpha=2.0)\<close> holds \<open>alpha = 2\<close>, outside
  \<open>[0, 1]\<close>, until the first update.
\<close>

theorem Fadein_alpha_unclamped_at_construction:
  "\<not> (0 \<le> get_alpha (Fadein_init 2) \<and> get_alpha (Fadein_init 2) \<le> 1)"
  by (simp add: Fadein_init_def get_alpha_def)

section \<open>Facts about the tensor primitives\<close>

lemma shape_map_tensor [simp]: "shape (map_tensor g t) = shape t"
  by (simp add: map_tensor_def)

lemma data_map_tensor [simp]: "data (map_tensor g t) = map g (data t)"
  by (simp add: map_tensor_def)

lemma well_shaped_map_tensor [simp]: "well_shaped (map_tensor g t) = well_shaped t"
  by (simp add: well_shaped_def)

lemma elem_map_tensor:
  "well_shaped t \<Longrightarrow> valid_index (shape t) is \<Longrightarrow> elem (map_tensor g t) is = g (elem t is)"
  using ravel_less [of "shape t" "is"] by (simp add: elem_def well_shaped_def)

lemma infer_size_nat:
  "infer_size (map int s) n = (if n = prod_list s then Inr s else Inl RuntimeError)"
proof -
  have a: "\<not> list_ex (\<lambda>d. d < - 1) (map int s)"
    by (simp add: list_ex_iff)
  have b: "filter (\<lambda>d. d = - 1) (map int s) = []"
    by (simp add: filter_empty_conv)
  have c: "filter (\<lambda>d. 0 \<le> d) (map int s) = map int s"
    by (simp add: filter_id_conv)
  have d: "- 1 \<notin> set (map int s)"
    by auto
  have e: "prod_list (map int s) = int (prod_list s)"
    by (induction s) simp_all
  have f: "map (nat \<circ> int) s = s"
    by (simp add: map_idI)
  show ?thesis
    unfolding infer_size_def using a b d by (simp add: c e f del: set_map)
qed

lemmas infer_size_5 = infer_size_nat [of "[a, b, c, d, e]" for a b c d e, simplified]
lemmas infer_size_5_one = infer_size_nat [of "[a, 1, c, d, e]" for a c d e, simplified]
lemmas infer_size_4_one = infer_size_nat [of "[a, 1, 1, 1]" for a, simplified]

lemma infer_size_flatten:
  "0 < a \<Longrightarrow> infer_size [int a, - 1] (a * k) = Inr [a, k]"
  by (simp add: infer_size_def)

lemma stddev_fmap_success:
  assumes "shape x = [n, c, h, w]" and "g * m = n" and "0 < m"
  shows "\<exists>y. stddev_fmap (int g) (int m) x = Inr y \<and> shape y = [n, 1, h, w]"
  using assms
  by (simp add: stddev_fmap_def size_dim_def reshape_def view_def numel_def
      infer_size_5 infer_size_4_one infer_size_flatten mean_dim_def Let_def tensor_sub_def broadcast_op_def
      broadcast_shapes_def pow2_def sqrt_tensor_def add_scalar_def repeat_def)

lemma sqrt_eps: "sqrt (1 / 100000000) = 1 / 10000"
  by (rule real_sqrt_unique) (simp_all add: power2_eq_square)

lemma upt_0_numeral: "[0..<numeral n] = 0 # [Suc 0..<numeral n]"
  by (simp add: upt_conv_Cons)

lemma upt_Suc_0_numeral:
  "[Suc 0..<numeral n] = (if Suc 0 < numeral n then Suc 0 # [2..<numeral n] else [])"
  by (simp add: upt_rec [of "Suc 0"] numeral_2_eq_2)

lemma Suc_Suc_0: "Suc (Suc 0) = 2"
  by simp

lemmas eval_defs = upt_0_numeral upt_Suc_0_numeral Suc_Suc_0 MinibatchStddev_forward_def group_G_def group_M_def py_mod_def py_int_truediv_def stddev_fmap_def size_dim_def reshape_def view_def numel_def
      infer_size_def mean_dim_def Let_def tensor_sub_def broadcast_op_def
      broadcast_shapes_def pow2_def sqrt_tensor_def add_scalar_def repeat_def cat_def
      tabulate_def elem_def bindex_def map_tensor_def sqrt_eps

lemma group_G_nondiv: "gs \<noteq> 0 \<Longrightarrow> n mod gs \<noteq> 0 \<Longrightarrow> group_G gs n = Inr n"
  by (simp add: group_G_def py_mod_def)

lemma group_G_div: "gs \<noteq> 0 \<Longrightarrow> n mod gs = 0 \<Longrightarrow> group_G gs n = Inr (min gs n)"
  by (simp add: group_G_def py_mod_def)

lemma group_G_zero: "group_G 0 n = Inl ZeroDivisionError"
  by (simp add: group_G_def py_mod_def)

lemma group_M_self: "n \<noteq> 0 \<Longrightarrow> group_M n n = Inr 1"
  by (simp add: group_M_def py_int_truediv_def sgn_if)

lemma group_M_nat: "0 < g \<Longrightarrow> group_M (int n) (int g) = Inr (int (n div g))"
  by (cases "n = 0") (simp_all add: group_M_def py_int_truediv_def zdiv_int)

lemma forward_success:
  assumes "shape x = [n, c, h, w]" and "group_G gs (int n) = Inr (int g)"
    and "group_M (int n) (int g) = Inr (int m)" and "g * m = n" and "0 < m"
  shows "\<exists>out. MinibatchStddev_forward gs x = Inr out \<and> shape out = [n, Suc c, h, w]"
proof -
  obtain y where y: "stddev_fmap (int g) (int m) x = Inr y" "shape y = [n, 1, h, w]"
    using stddev_fmap_success [OF assms(1,4,5)] by blast
  show ?thesis
    using assms(1-3) y by (simp add: MinibatchStddev_forward_def size_dim_def cat_def)
qed

lemma forward_success_nondiv:
  assumes "shape x = [n, c, h, w]" and "gs \<noteq> 0" and "int n mod gs \<noteq> 0"
  shows "\<exists>out. MinibatchStddev_forward gs x = Inr out \<and> shape out = [n, Suc c, h, w]"
proof -
  have n: "n \<noteq> 0"
    using assms(3) by (cases "n = 0") simp_all
  show ?thesis
    using forward_success [OF assms(1), of gs n 1] group_G_nondiv [OF assms(2,3)] group_M_self [of "int n"] n
    by simp
qed

lemma forward_success_div:
  assumes "shape x = [n, c, h, w]" and "0 < gs" and "int n mod gs = 0" and "0 < n"
  shows "\<exists>out. MinibatchStddev_forward gs x = Inr out \<and> shape out = [n, Suc c, h, w]"
proof -
  obtain g where g: "gs = int g" "0 < g"
    using assms(2) by (metis zero_less_imp_eq_int)
  have dvd: "g dvd n"
    using assms(3) g by (metis int_dvd_int_iff mod_eq_0_iff_dvd)
  then have le: "g \<le> n"
    using assms(4) by (simp add: dvd_imp_le)
  have G: "group_G gs (int n) = Inr (int g)"
    using group_G_div [of gs "int n"] assms(2,3) g le by (simp add: min_def)
  have M: "group_M (int n) (int g) = Inr (int (n div g))"
    using g by (simp add: group_M_nat)
  have "0 < n div g"
    using le g by (simp add: div_greater_zero_iff)
  then show ?thesis
    using forward_success [OF assms(1) G M] dvd by simp
qed

lemma forward_empty_batch:
  assumes "shape x = 0 # rest" and "0 < gs"
  shows "MinibatchStddev_forward gs x = Inl ZeroDivisionError"
  using assms by (simp add: MinibatchStddev_forward_def size_dim_def group_G_def py_mod_def
      group_M_def py_int_truediv_def)

lemma ebind_eq_Inr: "ebind m f = Inr v \<longleftrightarrow> (\<exists>a. m = Inr a \<and> f a = Inr v)"
  by (cases m) simp_all

lemma view_batch_shape:
  assumes "view t [M, 1, 1, 1] = Inr t'"
  shows "\<exists>a. shape t' = [a, 1, 1, 1]"
  using assms by (auto simp: view_def infer_size_def ebind_eq_Inr Let_def split: if_splits)

lemma repeat_batch_shape:
  assumes "repeat t [G, 1, int h, int w] = Inr y" and "shape t = [a, 1, 1, 1]"
  shows "shape y = [nat G * a, 1, h, w]"
  using assms by (auto simp: repeat_def Let_def split: if_splits)

lemma stddev_fmap_shape:
  assumes "stddev_fmap G M x = Inr y" and "shape x = [n, c, h, w]"
  shows "\<exists>b. shape y = [b, 1, h, w]"
proof -
  from assms obtain y5 y6 where "view y5 [M, 1, 1, 1] = Inr y6"
    and r: "repeat y6 [G, 1, int h, int w] = Inr y"
    unfolding stddev_fmap_def by (auto simp: ebind_eq_Inr size_dim_def Let_def)
  then obtain a where "shape y6 = [a, 1, 1, 1]"
    using view_batch_shape by blast
  with r show ?thesis
    using repeat_batch_shape by blast
qed

lemma forward_result:
  assumes "MinibatchStddev_forward gs x = Inr out" and "shape x = [n, c, h, w]"
  shows "\<exists>y. shape y = [n, 1, h, w] \<and>
    out = tabulate [n, Suc c, h, w]
            (\<lambda>is. if is ! 1 < c then elem x is else elem y (is[1 := is ! 1 - c]))"
proof -
  from assms obtain G M y where y: "stddev_fmap G M x = Inr y" and c: "cat x y 1 = Inr out"
    unfolding MinibatchStddev_forward_def by (auto simp: ebind_eq_Inr)
  obtain b where b: "shape y = [b, 1, h, w]"
    using stddev_fmap_shape [OF y assms(2)] by blast
  from c b assms(2) have "b = n"
    by (auto simp: cat_def Let_def split: if_splits)
  with c b assms(2) have "out = tabulate [n, Suc c, h, w]
      (\<lambda>is. if is ! 1 < c then elem x is else elem y (is[1 := is ! 1 - c]))"
    by (auto simp: cat_def Let_def split: if_splits cong: if_cong)
  with b \<open>b = n\<close> show ?thesis
    by blast
qed

section \<open>Properties of the minibatch standard deviation layer\<close>

lemma forward_example:
  "MinibatchStddev_forward 4 \<lparr>shape = [2, 2, 1, 2], data = [1, 2, 3, 4, 1, 2, 3, 4]\<rparr>
     = Inr \<lparr>shape = [2, 3, 1, 2],
            data = [1, 2, 3, 4, 1 / 10000, 1 / 10000, 1, 2, 3, 4, 1 / 10000, 1 / 10000]\<rparr>"
  by (simp add: eval_defs)

text \<open>
  C4.  Let \<open>N\<close> be the batch size of an \<open>N\<times>C\<times>H\<times>W\<close> input.  When the test
  \<^verbatim>\<open>N % group_size == 0\<close> of line 69 evaluates to false (it yields a remainder
  \<open>r \<noteq> 0\<close>), the group size is \<open>G = N\<close>, the group count is \<open>M = 1\<close> and the forward
  pass returns a tensor (of shape \<open>N\<times>(C+1)\<times>H\<times>W\<close>) instead of raising.  When the
  test evaluates to true, \<open>G = min(group_size, N)\<close>.
\<close>

theorem MinibatchStddev_group_fallback:
  assumes "shape x = [n, c, h, w]"
  shows "(py_mod (int n) group_size = Inr r \<and> r \<noteq> 0 \<longrightarrow>
            group_G group_size (int n) = Inr (int n) \<and> group_M (int n) (int n) = Inr 1
            \<and> (\<exists>out. MinibatchStddev_forward group_size x = Inr out \<and> shape out = [n, c + 1, h, w]))
       \<and> (py_mod (int n) group_size = Inr 0 \<longrightarrow>
            group_G group_size (int n) = Inr (min group_size (int n)))"
proof (intro conjI impI)
  assume a: "py_mod (int n) group_size = Inr r \<and> r \<noteq> 0"
  then have gs: "group_size \<noteq> 0" and nd: "int n mod group_size \<noteq> 0"
    by (auto simp: py_mod_def split: if_splits)
  then have n: "int n \<noteq> 0"
    by (cases "n = 0") simp_all
  show "group_G group_size (int n) = Inr (int n)"
    using gs nd by (rule group_G_nondiv)
  show "group_M (int n) (int n) = Inr 1"
    using n by (rule group_M_self)
  show "\<exists>out. MinibatchStddev_forward group_size x = Inr out \<and> shape out = [n, c + 1, h, w]"
    using forward_success_nondiv [OF assms gs nd] by simp
next
  assume "py_mod (int n) group_size = Inr 0"
  then have "group_size \<noteq> 0" and "int n mod group_size = 0"
    by (auto simp: py_mod_def split: if_splits)
  then show "group_G group_size (int n) = Inr (min group_size (int n))"
    by (rule group_G_div)
qed

text \<open>The claim's example, a batch of 5 with group size 4, and a batch of 8 that divides.\<close>

theorem MinibatchStddev_group_fallback_witness:
  "py_mod 5 4 = Inr 1 \<and> group_G 4 5 = Inr 5 \<and> group_M 5 5 = Inr 1
   \<and> (\<exists>out. MinibatchStddev_forward 4 \<lparr>shape = [5, 1, 1, 1], data = [1, 2, 3, 4, 5]\<rparr> = Inr out
          \<and> shape out = [5, 2, 1, 1])
   \<and> py_mod 8 4 = Inr 0 \<and> group_G 4 8 = Inr 4"
proof -
  have a: "py_mod (int 5) 4 = Inr 1 \<and> (1::int) \<noteq> 0"
    by (simp add: py_mod_def)
  have b: "py_mod (int 8) 4 = Inr 0"
    by (simp add: py_mod_def)
  show ?thesis
    using MinibatchStddev_group_fallback
            [of "\<lparr>shape = [5, 1, 1, 1], data = [1, 2, 3, 4, 5]\<rparr>" 5 1 1 1 4 1] a
          MinibatchStddev_group_fallback
            [of "\<lparr>shape = [8, 1, 1, 1], data = [1, 2, 3, 4, 5, 6, 7, 8]\<rparr>" 8 1 1 1 4 1] b
    by (simp add: numeral_2_eq_2)
qed

text \<open>
  C10.  For a positive \<open>group_size\<close> and an input of batch size \<open>N = 0\<close>, the test
  \<^verbatim>\<open>0 % group_size == 0\<close> holds, \<open>G = min(group_size, 0) = 0\<close>, and \<^verbatim>\<open>int(N / G)\<close>
  raises ZeroDivisionError, which is what the forward pass raises (not a shape error of
  the tensor runtime).  On \<open>N\<times>C\<times>H\<times>W\<close> inputs the forward pass returns a tensor
  exactly when \<open>N \<ge> 1\<close>.
\<close>

theorem MinibatchStddev_empty_batch:
  assumes "shape x = [n, c, h, w]" and "0 < group_size"
  shows "(n = 0 \<longrightarrow>
            py_mod (int n) group_size = Inr 0 \<and> group_G group_size (int n) = Inr 0
            \<and> group_M (int n) 0 = Inl ZeroDivisionError
            \<and> MinibatchStddev_forward group_size x = Inl ZeroDivisionError)
       \<and> ((\<exists>out. MinibatchStddev_forward group_size x = Inr out) \<longleftrightarrow> 1 \<le> n)"
proof -
  have zero: "MinibatchStddev_forward group_size x = Inl ZeroDivisionError" if "n = 0"
    using assms that by (intro forward_empty_batch [of x "[c, h, w]"]) simp_all
  have pos: "\<exists>out. MinibatchStddev_forward group_size x = Inr out" if n: "1 \<le> n"
  proof (cases "int n mod group_size = 0")
    case True
    then show ?thesis
      using forward_success_div [OF assms(1,2)] n by auto
  next
    case False
    then show ?thesis
      using forward_success_nondiv [OF assms(1) _ False] assms(2) by auto
  qed
  have "(\<exists>out. MinibatchStddev_forward group_size x = Inr out) \<longleftrightarrow> 1 \<le> n"
  proof
    assume "\<exists>out. MinibatchStddev_forward group_size x = Inr out"
    then show "1 \<le> n"
      using zero by (cases "n = 0") auto
  qed (rule pos)
  moreover have "n = 0 \<longrightarrow> py_mod (int n) group_size = Inr 0 \<and> group_G group_size (int n) = Inr 0
      \<and> group_M (int n) 0 = Inl ZeroDivisionError"
    using assms(2) by (simp add: py_mod_def group_G_def group_M_def py_int_truediv_def)
  ultimately show ?thesis
    using zero by blast
qed

theorem MinibatchStddev_empty_batch_witness:
  "py_mod 0 4 = Inr 0 \<and> group_G 4 0 = Inr 0 \<and> group_M 0 0 = Inl ZeroDivisionError
   \<and> MinibatchStddev_forward 4 \<lparr>shape = [0, 3, 2, 2], data = []\<rparr> = Inl ZeroDivisionError
   \<and> (\<exists>out. MinibatchStddev_forward 4 \<lparr>shape = [1, 1, 1, 1], data = [3]\<rparr> = Inr out)"
  using MinibatchStddev_empty_batch [of "\<lparr>shape = [0, 3, 2, 2], data = []\<rparr>" 0 3 2 2 4]
    MinibatchStddev_empty_batch [of "\<lparr>shape = [1, 1, 1, 1], data = [3]\<rparr>" 1 1 1 1 4]
  by simp

text \<open>
  C8.  Whenever the forward pass succeeds on an \<open>N\<times>C\<times>H\<times>W\<close> input, its result has
  shape \<open>N\<times>(C+1)\<times>H\<times>W\<close> (one more channel; batch and spatial sizes kept), holds as
  many elements as its shape says, and agrees with the input on the first \<open>C\<close> channels.
  The input itself is a value of the model and is not changed by the call.
\<close>

theorem MinibatchStddev_appends_one_channel:
  assumes "shape x = [n, c, h, w]" and "MinibatchStddev_forward group_size x = Inr out"
  shows "shape out = [n, c + 1, h, w] \<and> well_shaped out
         \<and> (\<forall>i j k l. i < n \<and> j < c \<and> k < h \<and> l < w \<longrightarrow>
               elem out [i, j, k, l] = elem x [i, j, k, l])"
proof -
  obtain y where out: "out = tabulate [n, Suc c, h, w]
      (\<lambda>is. if is ! 1 < c then elem x is else elem y (is[1 := is ! 1 - c]))"
    using forward_result [OF assms(2,1)] by blast
  show ?thesis
    by (simp add: out elem_tabulate)
qed

theorem MinibatchStddev_appends_one_channel_witness:
  "shape \<lparr>shape = [2, 2, 1, 2], data = [1, 2, 3, 4, 1, 2, 3, 4]\<rparr> = [2, 2, 1, 2]
   \<and> MinibatchStddev_forward 4 \<lparr>shape = [2, 2, 1, 2], data = [1, 2, 3, 4, 1, 2, 3, 4]\<rparr>
       = Inr \<lparr>shape = [2, 3, 1, 2],
              data = [1, 2, 3, 4, 1 / 10000, 1 / 10000, 1, 2, 3, 4, 1 / 10000, 1 / 10000]\<rparr>
   \<and> shape \<lparr>shape = [2, 3, 1, 2],
              data = [1, 2, 3, 4, 1 / 10000, 1 / 10000, 1, 2, 3, 4, 1 / 10000, 1 / 10000]\<rparr>
       = [2, 2 + 1, 1, 2]
   \<and> elem \<lparr>shape = [2, 3, 1, 2],
              data = [1, 2, 3, 4, 1 / 10000, 1 / 10000, 1, 2, 3, 4, 1 / 10000, 1 / 10000]\<rparr>
         [1, 1, 0, 1]
       = elem \<lparr>shape = [2, 2, 1, 2], data = [1, 2, 3, 4, 1, 2, 3, 4]\<rparr> [1, 1, 0, 1]"
  using MinibatchStddev_appends_one_channel [OF _ forward_example, of 2 2 1 2] forward_example
  by (simp add: elem_def)

subsection \<open>A batch of identical samples\<close>

lemma valid_index_Cons_left:
  "valid_index (d # ds) is \<longleftrightarrow> (\<exists>i is'. is = i # is' \<and> i < d \<and> valid_index ds is')"
  by (cases "is") simp_all

lemma bindex_Cons:
  "length is = length ds \<Longrightarrow>
   bindex (d # ds) (i # is) = (if d = 1 then 0 else i) # bindex ds is"
  by (simp add: bindex_def)

lemma bindex_Nil [simp]: "bindex [] [] = []"
  by (simp add: bindex_def)

lemma bindex_valid: "valid_index ds is \<Longrightarrow> bindex ds is = is"
proof (induction ds arbitrary: "is")
  case Nil
  then show ?case by simp
next
  case (Cons d ds)
  then obtain i is' where "is = i # is'" "i < d" "valid_index ds is'"
    by (auto simp: valid_index_Cons_left)
  then show ?case
    using Cons.IH [of is'] by (auto simp: bindex_Cons valid_index_length)
qed

lemma sum_list_const_upt:
  fixes f :: "nat \<Rightarrow> real"
  assumes "\<And>j. j < n \<Longrightarrow> f j = a"
  shows "(\<Sum>j\<leftarrow>[0..<n]. f j) = real n * a"
proof -
  have "map f [0..<n] = map (\<lambda>_. a) [0..<n]"
    by (rule map_cong [OF refl]) (simp add: assms)
  then have "sum_list (map f [0..<n]) = sum_list (map (\<lambda>_. a) [0..<n])"
    by (rule arg_cong)
  then show ?thesis
    by (simp add: sum_list_triv)
qed

lemma stddev_fmap_identical:
  assumes sh: "shape x = [g, c, h, w]" and g: "0 < g" and c: "0 < c"
    and same: "\<And>i is. i < g \<Longrightarrow> valid_index [c, h, w] is \<Longrightarrow> elem x (i # is) = elem x (0 # is)"
  shows "\<exists>y. stddev_fmap (int g) 1 x = Inr y \<and> shape y = [g, 1, h, w]
           \<and> (\<forall>is. valid_index [g, 1, h, w] is \<longrightarrow> elem y is = 1 / 10 ^ 4)"
proof -
  define y1 where "y1 = x\<lparr>shape := [g, 1, c, h, w]\<rparr>"
  define m1 where "m1 = tabulate [1, 1, c, h, w]
    (\<lambda>is. (\<Sum>j\<leftarrow>[0..<g]. elem y1 (is[0 := j])) / real g)"
  define y2 where "y2 = tabulate [g, 1, c, h, w]
    (\<lambda>is. elem y1 (bindex [g, 1, c, h, w] is) - elem m1 (bindex [1, 1, c, h, w] is))"
  define y3 where "y3 = tabulate [1, c, h, w]
    (\<lambda>is. (\<Sum>j\<leftarrow>[0..<g]. elem (pow2 y2) (take 0 is @ j # drop 0 is)) / real g)"
  define y4 where "y4 = sqrt_tensor (add_scalar y3 (1 / 10 ^ 8))"
  define v where "v = y4\<lparr>shape := [1, c * h * w]\<rparr>"
  define y5 where "y5 = tabulate [1]
    (\<lambda>is. (\<Sum>j\<leftarrow>[0..<c * h * w]. elem v (take 1 is @ j # drop 1 is)) / real (c * h * w))"
  define y6 where "y6 = y5\<lparr>shape := [1, 1, 1, 1]\<rparr>"
  define y7 where "y7 = tabulate [g, 1, h, w] (\<lambda>is. elem y6 (map2 (\<lambda>i d. i mod d) is [1, 1, 1, 1]))"
  have r1: "reshape x [int g, 1, int c, int h, int w] = Inr y1"
    by (simp add: reshape_def view_def numel_def sh infer_size_5_one y1_def)
  have r2: "mean_dim y1 0 True = Inr m1"
    by (simp add: mean_dim_def Let_def y1_def m1_def)
  have r3: "tensor_sub y1 m1 = Inr y2"
    by (simp add: tensor_sub_def broadcast_op_def broadcast_shapes_def y1_def m1_def y2_def)
  have r4: "mean_dim (pow2 y2) 0 False = Inr y3"
    by (simp add: mean_dim_def Let_def pow2_def y2_def y3_def)
  have r5: "view y4 [1, - 1] = Inr v"
    using infer_size_flatten [of 1 "c * h * w"]
    by (simp add: view_def numel_def y4_def y3_def sqrt_tensor_def add_scalar_def v_def mult.assoc)
  have r6: "mean_dim v 1 False = Inr y5"
    by (simp add: mean_dim_def Let_def v_def y5_def)
  have r7: "view y5 [1, 1, 1, 1] = Inr y6"
    using infer_size_4_one [of 1 1]
    by (simp add: view_def numel_def y5_def y6_def)
  have r8: "repeat y6 [int g, 1, int h, int w] = Inr y7"
    by (simp add: repeat_def Let_def y6_def y7_def)
  have eq: "stddev_fmap (int g) 1 x = Inr y7"
    using r1 r2 r3 r4 r5 r6 r7 r8
    by (simp add: stddev_fmap_def size_dim_def sh y4_def)
  have e1: "elem y1 (i # 0 # is) = elem x (i # is)" for i "is"
    by (simp add: y1_def elem_def sh)
  have same1: "elem y1 (i # 0 # is) = elem y1 (0 # 0 # is)"
    if "i < g" "valid_index [c, h, w] is" for i "is"
    using same [OF that] by (simp only: e1)
  have em1: "elem m1 (0 # 0 # is) = elem y1 (0 # 0 # is)"
    if v: "valid_index [c, h, w] is" for "is"
  proof -
    have "(\<Sum>j\<leftarrow>[0..<g]. elem y1 (j # 0 # is)) = real g * elem y1 (0 # 0 # is)"
      by (rule sum_list_const_upt) (rule same1 [OF _ v])
    then show ?thesis
      using v g by (simp add: m1_def elem_tabulate)
  qed
  have e2: "elem y2 (i # 0 # is) = 0"
    if "i < g" "valid_index [c, h, w] is" for i "is"
  proof -
    have "bindex [g, 1, c, h, w] (i # 0 # is) = i # 0 # is"
      using that by (simp add: bindex_valid)
    moreover have "bindex [1, 1, c, h, w] (i # 0 # is) = 0 # 0 # is"
      using that bindex_valid [of "[c, h, w]" "is"]
      by (simp add: bindex_Cons valid_index_length)
    ultimately show ?thesis
      using that same1 [OF that] by (simp add: y2_def elem_tabulate em1)
  qed
  have e3: "data y3 ! k = 0" if k: "k < c * h * w" for k
  proof -
    have "valid_index [1, c, h, w] (unravel [1, c, h, w] k)"
      using k by (intro valid_unravel) (simp add: mult.assoc)
    then obtain is' where u: "unravel [1, c, h, w] k = 0 # is'" and v: "valid_index [c, h, w] is'"
      by (auto simp: valid_index_Cons_left simp del: unravel.simps)
    have "elem (pow2 y2) (j # 0 # is') = 0" if j: "j < g" for j
    proof -
      have "elem (pow2 y2) (j # 0 # is') = (elem y2 (j # 0 # is'))\<^sup>2"
        unfolding pow2_def using j v by (intro elem_map_tensor) (simp_all add: y2_def)
      then show ?thesis
        using j v by (simp add: e2)
    qed
    then have "(\<Sum>j\<leftarrow>[0..<g]. elem (pow2 y2) (j # 0 # is')) = real g * 0"
      by (rule sum_list_const_upt)
    then show ?thesis
      using k data_tabulate_nth [of k "[1, c, h, w]"] u
      by (simp add: y3_def mult.assoc del: unravel.simps)
  qed
  have len3: "length (data y3) = c * h * w"
    by (simp add: y3_def tabulate_def mult.assoc)
  have e4: "data y4 ! k = 1 / 10 ^ 4" if "k < c * h * w" for k
    using that by (simp add: y4_def sqrt_tensor_def add_scalar_def len3 e3 sqrt_eps)
  have e5: "elem v [0, j] = 1 / 10 ^ 4" if "j < c * h * w" for j
    using that e4 [of j] by (simp add: v_def elem_def)
  have e6: "elem y6 [0, 0, 0, 0] = 1 / 10 ^ 4" if pos: "0 < c * h * w"
  proof -
    have "(\<Sum>j\<leftarrow>[0..<c * h * w]. elem v [0, j]) = real (c * h * w) * (1 / 10 ^ 4)"
      by (rule sum_list_const_upt) (rule e5)
    then have "elem y5 [0] = 1 / 10 ^ 4"
      using pos by (simp add: y5_def elem_tabulate)
    moreover have "shape y5 = [1]"
      by (simp add: y5_def)
    ultimately show ?thesis
      by (simp add: y6_def elem_def)
  qed
  have e7: "elem y7 is = 1 / 10 ^ 4" if v: "valid_index [g, 1, h, w] is" for "is"
  proof -
    from v obtain i j k where i: "is = [i, 0, j, k]" "j < h" "k < w"
      by (auto simp: valid_index_Cons_left)
    then have "0 < c * h * w"
      using c by simp
    then show ?thesis
      using v i by (simp add: y7_def elem_tabulate e6)
  qed
  show ?thesis
    using eq e7 by (simp add: y7_def)
qed

lemma forward_stddev_example:
  "MinibatchStddev_forward 4 \<lparr>shape = [4, 1, 1, 2], data = [3, 5, 3, 5, 3, 5, 3, 5]\<rparr>
     = Inr \<lparr>shape = [4, 2, 1, 2],
            data = [3, 5, 1 / 10000, 1 / 10000, 3, 5, 1 / 10000, 1 / 10000,
                    3, 5, 1 / 10000, 1 / 10000, 3, 5, 1 / 10000, 1 / 10000]\<rparr>"
  by (simp add: eval_defs)

text \<open>
  C3 (amended).  For a batch of 4 identical feature maps with at least one channel and
  \<open>group_size = 4\<close> (so \<open>G = 4\<close>, \<open>M = 1\<close>), the forward pass succeeds and every
  element of the appended channel equals \<open>sqrt (0 + 1e-8) = 1e-4\<close>: the variance of
  identical samples is 0, and line 74 adds \<open>1e-8\<close> before taking the square root.
\<close>

theorem MinibatchStddev_identical_batch:
  assumes sh: "shape x = [4, c, h, w]" and c: "0 < c"
    and same: "\<forall>i j k l. i < 4 \<and> j < c \<and> k < h \<and> l < w \<longrightarrow>
                 elem x [i, j, k, l] = elem x [0, j, k, l]"
  shows "group_G 4 4 = Inr 4 \<and> group_M 4 4 = Inr 1
    \<and> (\<exists>out. MinibatchStddev_forward 4 x = Inr out \<and> shape out = [4, c + 1, h, w]
          \<and> (\<forall>i k l. i < 4 \<and> k < h \<and> l < w \<longrightarrow> elem out [i, c, k, l] = 1 / 10 ^ 4))"
proof -
  have G: "group_G 4 4 = Inr 4" and M: "group_M 4 4 = Inr 1"
    by (simp_all add: group_G_def py_mod_def group_M_def py_int_truediv_def)
  have same': "elem x (i # is) = elem x (0 # is)" if i: "i < 4" and v: "valid_index [c, h, w] is" for i "is"
  proof -
    from v obtain j k l where "is = [j, k, l]" "j < c" "k < h" "l < w"
      by (auto simp: valid_index_Cons_left)
    then show ?thesis
      using same [rule_format, of i j k l] i by simp
  qed
  have "\<exists>y. stddev_fmap (int 4) 1 x = Inr y \<and> shape y = [4, 1, h, w]
           \<and> (\<forall>is. valid_index [4, 1, h, w] is \<longrightarrow> elem y is = 1 / 10 ^ 4)"
    by (rule stddev_fmap_identical [OF sh _ c]) (simp, rule same')
  then obtain y where y: "stddev_fmap 4 1 x = Inr y" and shy: "shape y = [4, 1, h, w]"
    and val: "\<And>is. valid_index [4, 1, h, w] is \<Longrightarrow> elem y is = 1 / 10 ^ 4"
    by auto
  define out where "out = tabulate [4, Suc c, h, w]
      (\<lambda>is. if is ! 1 < c then elem x is else elem y (is[1 := is ! 1 - c]))"
  have "cat x y 1 = Inr out"
    using sh shy by (simp add: cat_def out_def cong: if_cong)
  then have f: "MinibatchStddev_forward 4 x = Inr out"
    using y G M sh by (simp add: MinibatchStddev_forward_def size_dim_def)
  have "elem out [i, c, k, l] = 1 / 10 ^ 4" if "i < 4" "k < h" "l < w" for i k l
    using that val [of "[i, 0, k, l]"] by (simp add: out_def elem_tabulate)
  then show ?thesis
    using G M f by (simp add: out_def)
qed

theorem MinibatchStddev_identical_batch_witness:
  "shape \<lparr>shape = [4, 1, 1, 2], data = [3, 5, 3, 5, 3, 5, 3, 5]\<rparr> = [4, 1, 1, 2]
   \<and> group_G 4 4 = Inr 4 \<and> group_M 4 4 = Inr 1
   \<and> (\<exists>out. MinibatchStddev_forward 4 \<lparr>shape = [4, 1, 1, 2], data = [3, 5, 3, 5, 3, 5, 3, 5]\<rparr>
               = Inr out
          \<and> shape out = [4, 2, 1, 2] \<and> elem out [0, 1, 0, 0] = 1 / 10 ^ 4
          \<and> elem out [3, 1, 0, 1] = 1 / 10 ^ 4)"
proof -
  have "elem \<lparr>shape = [4, 1, 1, 2], data = [3, 5, 3, 5, 3, 5, 3, 5]\<rparr> [i, j, k, l]
      = elem \<lparr>shape = [4, 1, 1, 2], data = [3, 5, 3, 5, 3, 5, 3, 5]\<rparr> [0, j, k, l]"
    if "i < 4 \<and> j < 1 \<and> k < 1 \<and> l < 2" for i j k l :: nat
  proof -
    from that have "i = 0 \<or> i = 1 \<or> i = 2 \<or> i = 3" and "j = 0" and "k = 0" and "l = 0 \<or> l = 1"
      by arith+
    then show ?thesis
      by (elim disjE) (simp_all add: elem_def)
  qed
  then have same: "\<forall>i j k l. i < 4 \<and> j < 1 \<and> k < 1 \<and> l < 2 \<longrightarrow>
      elem \<lparr>shape = [4, 1, 1, 2], data = [3, 5, 3, 5, 3, 5, 3, 5]\<rparr> [i, j, k, l]
      = elem \<lparr>shape = [4, 1, 1, 2], data = [3, 5, 3, 5, 3, 5, 3, 5]\<rparr> [0, j, k, l]"
    by blast
  have "\<exists>out. MinibatchStddev_forward 4 \<lparr>shape = [4, 1, 1, 2], data = [3, 5, 3, 5, 3, 5, 3, 5]\<rparr>
               = Inr out
          \<and> shape out = [4, 1 + 1, 1, 2]
          \<and> (\<forall>i k l. i < 4 \<and> k < 1 \<and> l < 2 \<longrightarrow> elem out [i, 1, k, l] = 1 / 10 ^ 4)"
    using MinibatchStddev_identical_batch
      [of "\<lparr>shape = [4, 1, 1, 2], data = [3, 5, 3, 5, 3, 5, 3, 5]\<rparr>" 1 1 2, OF _ _ same]
    by simp
  then obtain out where
    "MinibatchStddev_forward 4 \<lparr>shape = [4, 1, 1, 2], data = [3, 5, 3, 5, 3, 5, 3, 5]\<rparr> = Inr out"
    "shape out = [4, 1 + 1, 1, 2]"
    "\<And>i k l. i < 4 \<and> k < 1 \<and> l < 2 \<Longrightarrow> elem out [i, 1, k, l] = 1 / 10 ^ 4"
    by blast
  moreover from this(3) [of 0 0 0] this(3) [of 3 0 1]
  have "elem out [0, 1, 0, 0] = 1 / 10 ^ 4" "elem out [3, 1, 0, 1] = 1 / 10 ^ 4"
    by simp_all
  moreover have "group_G 4 4 = Inr 4 \<and> group_M 4 4 = Inr 1"
    by (simp add: group_G_def py_mod_def group_M_def py_int_truediv_def)
  ultimately show ?thesis
    by (auto simp: numeral_2_eq_2)
qed

text \<open>
  C3 as stated fails: on four identical \<open>1\<times>1\<times>2\<close> maps the appended channel holds
  \<open>1/10000\<close> everywhere, not zero.
\<close>

theorem MinibatchStddev_identical_batch_not_zero:
  "MinibatchStddev_forward 4 \<lparr>shape = [4, 1, 1, 2], data = [3, 5, 3, 5, 3, 5, 3, 5]\<rparr>
     = Inr \<lparr>shape = [4, 2, 1, 2],
            data = [3, 5, 1 / 10000, 1 / 10000, 3, 5, 1 / 10000, 1 / 10000,
                    3, 5, 1 / 10000, 1 / 10000, 3, 5, 1 / 10000, 1 / 10000]\<rparr>
   \<and> elem \<lparr>shape = [4, 2, 1, 2],
            data = [3, 5, 1 / 10000, 1 / 10000, 3, 5, 1 / 10000, 1 / 10000,
                    3, 5, 1 / 10000, 1 / 10000, 3, 5, 1 / 10000, 1 / 10000]\<rparr> [0, 1, 0, 0] \<noteq> 0"
  using forward_stddev_example by (simp add: elem_def)

section \<open>Properties of the pixelwise normalization layer\<close>

lemma keep_index: "i < d \<Longrightarrow> (if d = Suc 0 then 0 else i) = i"
  by auto

text \<open>
  C7.  On an \<open>N\<times>C\<times>H\<times>W\<close> input the forward pass returns a tensor of the same shape
  whose value at \<open>(i, j, k, l)\<close> is the input value divided by the square root of the
  mean over the channel axis of the squared values at pixel \<open>(i, k, l)\<close> plus \<open>1e-8\<close>.
  Where all \<open>C\<close> channel values of a pixel equal \<open>a\<close>, every output channel value
  there is \<open>a / sqrt (a\<^sup>2 + 1e-8)\<close>.
\<close>

theorem PixelwiseNorm_forward_values:
  assumes sh: "shape x = [n, c, h, w]" and wf: "well_shaped x"
  shows "\<exists>out. PixelwiseNorm_forward x = Inr out \<and> shape out = [n, c, h, w]
    \<and> (\<forall>i j k l. i < n \<and> j < c \<and> k < h \<and> l < w \<longrightarrow>
          elem out [i, j, k, l]
            = elem x [i, j, k, l]
              / sqrt ((\<Sum>j'\<leftarrow>[0..<c]. (elem x [i, j', k, l])\<^sup>2) / real c + 1 / 10 ^ 8))
    \<and> (\<forall>i k l a. i < n \<and> k < h \<and> l < w \<and> (\<forall>j. j < c \<longrightarrow> elem x [i, j, k, l] = a) \<longrightarrow>
          (\<forall>j. j < c \<longrightarrow> elem out [i, j, k, l] = a / sqrt (a\<^sup>2 + 1 / 10 ^ 8)))"
proof -
  define m where "m = tabulate [n, 1, h, w]
    (\<lambda>is. (\<Sum>j\<leftarrow>[0..<c]. elem (pow2 x) (is[1 := j])) / real c)"
  define y where "y = sqrt_tensor (add_scalar m (1 / 10 ^ 8))"
  define out where "out = tabulate [n, c, h, w]
    (\<lambda>is. elem x (bindex [n, c, h, w] is) / elem y (bindex [n, 1, h, w] is))"
  have r1: "mean_dim (pow2 x) 1 True = Inr m"
    by (simp add: mean_dim_def Let_def pow2_def sh m_def)
  have r2: "tensor_div x y = Inr out"
    by (simp add: tensor_div_def broadcast_op_def broadcast_shapes_def sh y_def
        sqrt_tensor_def add_scalar_def m_def out_def)
  have f: "PixelwiseNorm_forward x = Inr out"
    using r1 r2 by (simp add: PixelwiseNorm_forward_def Let_def y_def)
  have p2: "elem (pow2 x) [i, j, k, l] = (elem x [i, j, k, l])\<^sup>2"
    if "i < n" "j < c" "k < h" "l < w" for i j k l
    unfolding pow2_def using that wf sh by (intro elem_map_tensor) simp_all
  have em: "elem m [i, 0, k, l] = (\<Sum>j\<leftarrow>[0..<c]. (elem x [i, j, k, l])\<^sup>2) / real c"
    if b: "i < n" "k < h" "l < w" for i k l
  proof -
    have "map (\<lambda>j. elem (pow2 x) [i, j, k, l]) [0..<c] = map (\<lambda>j. (elem x [i, j, k, l])\<^sup>2) [0..<c]"
      by (rule map_cong [OF refl]) (simp add: p2 b)
    then have "(\<Sum>j\<leftarrow>[0..<c]. elem (pow2 x) [i, j, k, l]) = (\<Sum>j\<leftarrow>[0..<c]. (elem x [i, j, k, l])\<^sup>2)"
      by (rule arg_cong)
    then show ?thesis
      using b by (simp add: m_def elem_tabulate)
  qed
  have ey: "elem y [i, 0, k, l] = sqrt ((\<Sum>j\<leftarrow>[0..<c]. (elem x [i, j, k, l])\<^sup>2) / real c + 1 / 10 ^ 8)"
    if b: "i < n" "k < h" "l < w" for i k l
  proof -
    have "elem y [i, 0, k, l] = sqrt (elem (add_scalar m (1 / 10 ^ 8)) [i, 0, k, l])"
      unfolding y_def sqrt_tensor_def using b
      by (intro elem_map_tensor) (simp_all add: add_scalar_def m_def)
    also have "elem (add_scalar m (1 / 10 ^ 8)) [i, 0, k, l] = elem m [i, 0, k, l] + 1 / 10 ^ 8"
      unfolding add_scalar_def using b by (intro elem_map_tensor) (simp_all add: m_def)
    finally show ?thesis
      using b by (simp add: em)
  qed
  have eo: "elem out [i, j, k, l]
      = elem x [i, j, k, l] / sqrt ((\<Sum>j'\<leftarrow>[0..<c]. (elem x [i, j', k, l])\<^sup>2) / real c + 1 / 10 ^ 8)"
    if b: "i < n" "j < c" "k < h" "l < w" for i j k l
  proof -
    have "bindex [n, c, h, w] [i, j, k, l] = [i, j, k, l]"
      using b by (intro bindex_valid) simp
    moreover have "bindex [n, 1, h, w] [i, j, k, l] = [i, 0, k, l]"
      using b by (simp add: bindex_def keep_index)
    ultimately show ?thesis
      using b by (simp add: out_def elem_tabulate ey)
  qed
  have const: "elem out [i, j, k, l] = a / sqrt (a\<^sup>2 + 1 / 10 ^ 8)"
    if b: "i < n" "k < h" "l < w" "j < c" and a: "\<And>j. j < c \<Longrightarrow> elem x [i, j, k, l] = a"
    for i j k l a
  proof -
    have "(\<Sum>j'\<leftarrow>[0..<c]. (elem x [i, j', k, l])\<^sup>2) = real c * a\<^sup>2"
      by (rule sum_list_const_upt) (simp add: a)
    then show ?thesis
      using b a [of j] by (simp add: eo)
  qed
  show ?thesis
    using f eo const by (auto simp: out_def)
qed

theorem PixelwiseNorm_forward_values_witness:
  "shape \<lparr>shape = [1, 2, 1, 1], data = [3, 3]\<rparr> = [1, 2, 1, 1]
   \<and> well_shaped \<lparr>shape = [1, 2, 1, 1], data = [3, 3]\<rparr>
   \<and> (\<exists>out. PixelwiseNorm_forward \<lparr>shape = [1, 2, 1, 1], data = [3, 3]\<rparr> = Inr out
          \<and> shape out = [1, 2, 1, 1]
          \<and> elem out [0, 0, 0, 0] = 3 / sqrt (3\<^sup>2 + 1 / 10 ^ 8)
          \<and> elem out [0, 1, 0, 0] = 3 / sqrt (3\<^sup>2 + 1 / 10 ^ 8))"
proof -
  let ?x = "\<lparr>shape = [1, 2, 1, 1], data = [3, 3]\<rparr>"
  have sh: "shape ?x = [1, 2, 1, 1]" and wf: "well_shaped ?x"
    by (simp_all add: well_shaped_def)
  have same: "\<forall>j. j < 2 \<longrightarrow> elem ?x [0, j, 0, 0] = 3"
  proof (intro allI impI)
    fix j :: nat assume "j < 2"
    then have "j = 0 \<or> j = 1" by arith
    then show "elem ?x [0, j, 0, 0] = 3" by (elim disjE) (simp_all add: elem_def)
  qed
  from PixelwiseNorm_forward_values [OF sh wf]
  obtain out where out: "PixelwiseNorm_forward ?x = Inr out" and so: "shape out = [1, 2, 1, 1]"
    and c: "\<forall>i k l a. i < 1 \<and> k < 1 \<and> l < 1 \<and> (\<forall>j. j < 2 \<longrightarrow> elem ?x [i, j, k, l] = a) \<longrightarrow>
              (\<forall>j. j < 2 \<longrightarrow> elem out [i, j, k, l] = a / sqrt (a\<^sup>2 + 1 / 10 ^ 8))"
    by (elim exE conjE)
  from c [rule_format, of 0 0 0 3 0] c [rule_format, of 0 0 0 3 1] same
  have "elem out [0, 0, 0, 0] = 3 / sqrt (3\<^sup>2 + 1 / 10 ^ 8)"
    and "elem out [0, 1, 0, 0] = 3 / sqrt (3\<^sup>2 + 1 / 10 ^ 8)"
    by simp_all
  with out so sh wf show ?thesis
    by (intro conjI exI [of _ out])
qed

section \<open>Properties of the upsampling layer\<close>

text \<open>
  C9.  On an \<open>N\<times>C\<times>H\<times>W\<close> input with non-empty channel and spatial part the
  forward pass returns a tensor of shape \<open>N\<times>C\<times>2H\<times>2W\<close> whose value at
  \<open>(i, j, k, l)\<close> is the input value at \<open>(i, j, k div 2, l div 2)\<close>: a copy of the
  nearest source pixel, with no blending.
\<close>

theorem Upsample_forward_nearest:
  assumes sh: "shape x = [n, c, h, w]" and pos: "0 < c" "0 < h" "0 < w"
  shows "\<exists>out. Upsample_forward x = Inr out \<and> shape out = [n, c, 2 * h, 2 * w]
    \<and> (\<forall>i j k l. i < n \<and> j < c \<and> k < 2 * h \<and> l < 2 * w \<longrightarrow>
          elem out [i, j, k, l] = elem x [i, j, k div 2, l div 2])"
proof -
  define out where "out = tabulate [n, c, h * 2, w * 2]
    (\<lambda>is. elem x (take 2 is @ map2 (\<lambda>i d. min (i div 2) (d - 1)) (drop 2 is) [h, w]))"
  have f: "Upsample_forward x = Inr out"
    using pos by (simp add: Upsample_forward_def interpolate_nearest_def Let_def sh out_def)
  have "elem out [i, j, k, l] = elem x [i, j, k div 2, l div 2]"
    if b: "i < n" "j < c" "k < 2 * h" "l < 2 * w" for i j k l
  proof -
    have "min (k div 2) (h - 1) = k div 2" and "min (l div 2) (w - 1) = l div 2"
      using b by (simp_all add: min_def)
    then show ?thesis
      using b by (simp add: out_def elem_tabulate)
  qed
  then show ?thesis
    using f by (simp add: out_def mult.commute)
qed

theorem Upsample_forward_nearest_witness:
  "shape \<lparr>shape = [1, 1, 1, 2], data = [7, 9]\<rparr> = [1, 1, 1, 2]
   \<and> Upsample_forward \<lparr>shape = [1, 1, 1, 2], data = [7, 9]\<rparr>
       = Inr \<lparr>shape = [1, 1, 2, 4], data = [7, 7, 9, 9, 7, 7, 9, 9]\<rparr>"
proof -
  let ?x = "\<lparr>shape = [1, 1, 1, 2], data = [7, 9]\<rparr>"
  have e: "Upsample_forward ?x = Inr \<lparr>shape = [1, 1, 2, 4], data = [7, 7, 9, 9, 7, 7, 9, 9]\<rparr>"
    by (simp add: Upsample_forward_def interpolate_nearest_def Let_def tabulate_def elem_def
        upt_0_numeral upt_Suc_0_numeral)
  have "\<exists>out. Upsample_forward ?x = Inr out \<and> shape out = [1, 1, 2 * 1, 2 * 2]
    \<and> (\<forall>i j k l. i < 1 \<and> j < 1 \<and> k < 2 * 1 \<and> l < 2 * 2 \<longrightarrow>
          elem out [i, j, k, l] = elem ?x [i, j, k div 2, l div 2])"
    by (rule Upsample_forward_nearest) simp_all
  with e show ?thesis
    by simp
qed

section \<open>Properties of the fade-in blend\<close>

lemma broadcast_rev_same: "broadcast_rev xs xs = Inr xs"
  by (induction xs) simp_all

lemma broadcast_shapes_same: "broadcast_shapes s s = Inr s"
  by (simp add: broadcast_shapes_def broadcast_rev_same)

lemma broadcast_op_same_shape:
  assumes "well_shaped a" and "well_shaped b" and "shape a = shape b"
  shows "broadcast_op g a b = Inr \<lparr>shape = shape a, data = map2 g (data a) (data b)\<rparr>"
proof -
  let ?s = "shape a"
  let ?t = "tabulate ?s (\<lambda>is. g (elem a (bindex ?s is)) (elem b (bindex ?s is)))"
  have "data ?t = map2 g (data a) (data b)"
  proof (rule nth_equalityI)
    show "length (data ?t) = length (map2 g (data a) (data b))"
      using assms by (simp add: tabulate_def well_shaped_def)
  next
    fix k assume "k < length (data ?t)"
    then have k: "k < prod_list ?s"
      by (simp add: tabulate_def)
    then have v: "valid_index ?s (unravel ?s k)"
      by (rule valid_unravel)
    have "data ?t ! k = g (elem a (unravel ?s k)) (elem b (unravel ?s k))"
      using k v by (simp add: data_tabulate_nth bindex_valid)
    also have "\<dots> = g (data a ! k) (data b ! k)"
      using k assms(3) by (simp add: elem_def ravel_unravel)
    finally show "data ?t ! k = map2 g (data a) (data b) ! k"
      using k assms by (simp add: well_shaped_def)
  qed
  then have "?t = \<lparr>shape = ?s, data = map2 g (data a) (data b)\<rparr>"
    by (simp add: tabulate_def)
  then show ?thesis
    using assms(3) by (simp add: broadcast_op_def broadcast_shapes_same)
qed

lemma map2_first: "length xs = length ys \<Longrightarrow> map2 (\<lambda>a b. a) xs ys = xs"
  by (induction xs ys rule: list_induct2) simp_all

lemma map2_second: "length xs = length ys \<Longrightarrow> map2 (\<lambda>a b. b) xs ys = ys"
  by (induction xs ys rule: list_induct2) simp_all

lemma Fadein_forward_same_shape:
  assumes "well_shaped old" and "well_shaped new" and "shape old = shape new"
  shows "Fadein_forward self [old, new]
           = Inr \<lparr>shape = shape old,
                  data = map2 (\<lambda>a b. a * (1 - alpha self) + b * alpha self) (data old) (data new)\<rparr>"
proof -
  have "Fadein_forward self [old, new]
      = Inr \<lparr>shape = shape old,
          data = map2 (+) (map (\<lambda>v. v * (1 - alpha self)) (data old))
                          (map (\<lambda>v. v * alpha self) (data new))\<rparr>"
    using assms
    by (simp add: Fadein_forward_def tensor_add_def mul_scalar_def
        broadcast_op_same_shape [of "map_tensor f old" "map_tensor f' new" for f f', simplified])
  also have "map2 (+) (map (\<lambda>v. v * (1 - alpha self)) (data old)) (map (\<lambda>v. v * alpha self) (data new))
      = map2 (\<lambda>a b. a * (1 - alpha self) + b * alpha self) (data old) (data new)"
    by (auto simp: zip_map_map)
  finally show ?thesis .
qed

lemma keep_index_all:
  fixes js ds :: "nat list"
  shows "list_all2 (<) js ds \<Longrightarrow>
         list_all2 (<) (map2 (\<lambda>d i. if d = Suc 0 then 0 else i) ds js) ds"
  by (induction js ds rule: list_all2_induct) auto

lemma zip_take_left: "zip xs (take (length xs) ys) = zip xs ys"
  by (induction xs ys rule: list_induct2') simp_all

lemma broadcast_rev_index:
  assumes "broadcast_rev xs ys = Inr r" and "list_all2 (<) js r"
  shows "list_all2 (<) (map2 (\<lambda>d i. if d = Suc 0 then 0 else i) xs js) xs
       \<and> list_all2 (<) (map2 (\<lambda>d i. if d = Suc 0 then 0 else i) ys js) ys"
  using assms
proof (induction xs ys arbitrary: r js rule: broadcast_rev.induct)
  case (1 ys)
  then show ?case
    by (simp add: keep_index_all)
next
  case (2 x xs)
  then show ?case
    using keep_index_all [of js "x # xs"] by simp
next
  case (3 x xs y ys)
  from "3.prems"(1) obtain r' where r': "broadcast_rev xs ys = Inr r'"
    and r: "r = (if x = y \<or> y = 1 then x else y) # r'"
    and c: "x = y \<or> y = 1 \<or> x = 1"
    by (auto simp: ebind_eq_Inr split: if_splits)
  from "3.prems"(2) r obtain j js' where js: "js = j # js'"
    and j: "j < (if x = y \<or> y = 1 then x else y)" and js': "list_all2 (<) js' r'"
    by (auto simp: list_all2_Cons2)
  have tl: "list_all2 (<) (map2 (\<lambda>d i. if d = Suc 0 then 0 else i) xs js') xs
       \<and> list_all2 (<) (map2 (\<lambda>d i. if d = Suc 0 then 0 else i) ys js') ys"
  proof (cases "x = y \<or> y = 1")
    case True
    then show ?thesis using "3.IH"(1) [OF True r' js'] by simp
  next
    case False
    with c have "x = 1" by simp
    then show ?thesis using "3.IH"(2) [OF False _ r' js'] by simp
  qed
  have "(if x = Suc 0 then 0 else j) < x" and "(if y = Suc 0 then 0 else j) < y"
    using j c by (auto split: if_splits)
  then show ?case
    using tl by (simp add: js)
qed

lemma rev_bindex:
  assumes "length ds \<le> length is"
  shows "rev (bindex ds is) = map2 (\<lambda>d i. if d = Suc 0 then 0 else i) (rev ds) (rev is)"
proof -
  have len: "length ds = length (drop (length is - length ds) is)"
    using assms by simp
  have "rev (bindex ds is)
      = map2 (\<lambda>d i. if d = Suc 0 then 0 else i) (rev ds) (rev (drop (length is - length ds) is))"
    using zip_rev [OF len] by (simp add: bindex_def rev_map)
  also have "rev (drop (length is - length ds) is) = take (length (rev ds)) (rev is)"
    using assms by (simp add: rev_drop)
  also have "zip (rev ds) (take (length (rev ds)) (rev is)) = zip (rev ds) (rev is)"
    by (rule zip_take_left)
  finally show ?thesis .
qed

lemma bindex_broadcast_valid:
  assumes "broadcast_shapes a b = Inr s" and "valid_index s is"
  shows "valid_index a (bindex a is) \<and> valid_index b (bindex b is)"
proof -
  from assms(1) obtain r where r: "broadcast_rev (rev a) (rev b) = Inr r" and s: "s = rev r"
    by (auto simp: broadcast_shapes_def ebind_eq_Inr)
  have "list_all2 (<) (rev is) r"
    using assms(2) s by (simp add: valid_index_def list_all2_rev1)
  from broadcast_rev_index [OF r this]
  have A: "list_all2 (<) (map2 (\<lambda>d i. if d = Suc 0 then 0 else i) (rev a) (rev is)) (rev a)"
    and B: "list_all2 (<) (map2 (\<lambda>d i. if d = Suc 0 then 0 else i) (rev b) (rev is)) (rev b)"
    by simp_all
  have la: "length a \<le> length is" and lb: "length b \<le> length is"
    using list_all2_lengthD [OF A] list_all2_lengthD [OF B] by simp_all
  have "list_all2 (<) (rev (bindex a is)) (rev a)" and "list_all2 (<) (rev (bindex b is)) (rev b)"
    using A B by (simp_all only: rev_bindex [OF la] rev_bindex [OF lb])
  then show ?thesis
    by (simp add: valid_index_def)
qed

lemma Fadein_forward_pointwise:
  assumes wo: "well_shaped old" and wn: "well_shaped new"
    and bs: "broadcast_shapes (shape old) (shape new) = Inr s"
  shows "\<exists>out. Fadein_forward self [old, new] = Inr out \<and> shape out = s \<and> well_shaped out
    \<and> (\<forall>is. valid_index s is \<longrightarrow>
          elem out is = elem old (bindex (shape old) is) * (1 - alpha self)
                        + elem new (bindex (shape new) is) * alpha self)"
proof -
  define a where "a = mul_scalar old (1 - alpha self)"
  define b where "b = mul_scalar new (alpha self)"
  define out where "out = tabulate s
    (\<lambda>is. elem a (bindex (shape old) is) + elem b (bindex (shape new) is))"
  have f: "Fadein_forward self [old, new] = Inr out"
    using bs
    by (simp add: Fadein_forward_def tensor_add_def broadcast_op_def a_def b_def out_def
        mul_scalar_def)
  have "elem out is = elem old (bindex (shape old) is) * (1 - alpha self)
                        + elem new (bindex (shape new) is) * alpha self"
    if v: "valid_index s is" for "is"
  proof -
    have va: "valid_index (shape old) (bindex (shape old) is)"
      and vb: "valid_index (shape new) (bindex (shape new) is)"
      using bindex_broadcast_valid [OF bs v] by simp_all
    have "elem a (bindex (shape old) is) = elem old (bindex (shape old) is) * (1 - alpha self)"
      unfolding a_def mul_scalar_def using wo va by (rule elem_map_tensor)
    moreover have "elem b (bindex (shape new) is) = elem new (bindex (shape new) is) * alpha self"
      unfolding b_def mul_scalar_def using wn vb by (rule elem_map_tensor)
    ultimately show ?thesis
      using v by (simp add: out_def elem_tabulate)
  qed
  then show ?thesis
    using f by (simp add: out_def)
qed

text \<open>
  C6 (amended).  Given the pair \<open>[old, new]\<close> of broadcast-compatible branch outputs,
  the forward pass returns \<open>old * (1 - alpha) + new * alpha\<close> computed with broadcasting:
  the result has the broadcast shape of the two outputs, and its value at every index is
  \<open>old * (1 - alpha) + new * alpha\<close> with each operand read at its broadcast index.
  When the two outputs have the same shape, the result at \<open>alpha = 0\<close> is exactly
  \<open>old\<close>, at \<open>alpha = 1\<close> exactly \<open>new\<close>, and at \<open>alpha = 0.5\<close> the elementwise average.
\<close>

theorem Fadein_forward_blend:
  assumes "well_shaped old" and "well_shaped new"
  shows "(\<forall>s. broadcast_shapes (shape old) (shape new) = Inr s \<longrightarrow>
           (\<exists>out. Fadein_forward self [old, new] = Inr out \<and> shape out = s \<and> well_shaped out
              \<and> (\<forall>is. valid_index s is \<longrightarrow>
                    elem out is = elem old (bindex (shape old) is) * (1 - alpha self)
                                  + elem new (bindex (shape new) is) * alpha self)))
    \<and> (shape old = shape new \<longrightarrow>
          Fadein_forward self [old, new]
            = Inr \<lparr>shape = shape old,
                   data = map2 (\<lambda>a b. a * (1 - alpha self) + b * alpha self) (data old) (data new)\<rparr>
          \<and> (alpha self = 0 \<longrightarrow> Fadein_forward self [old, new] = Inr old)
          \<and> (alpha self = 1 \<longrightarrow> Fadein_forward self [old, new] = Inr new)
          \<and> (alpha self = 1 / 2 \<longrightarrow> Fadein_forward self [old, new]
                = Inr \<lparr>shape = shape old, data = map2 (\<lambda>a b. (a + b) / 2) (data old) (data new)\<rparr>))"
proof (intro conjI allI impI)
  fix s assume "broadcast_shapes (shape old) (shape new) = Inr s"
  with assms show "\<exists>out. Fadein_forward self [old, new] = Inr out \<and> shape out = s \<and> well_shaped out
              \<and> (\<forall>is. valid_index s is \<longrightarrow>
                    elem out is = elem old (bindex (shape old) is) * (1 - alpha self)
                                  + elem new (bindex (shape new) is) * alpha self)"
    by (rule Fadein_forward_pointwise)
next
  assume sh: "shape old = shape new"
  note F = Fadein_forward_same_shape [OF assms sh, of self]
  have len: "length (data old) = length (data new)"
    using assms sh by (simp add: well_shaped_def)
  show "Fadein_forward self [old, new]
            = Inr \<lparr>shape = shape old,
                   data = map2 (\<lambda>a b. a * (1 - alpha self) + b * alpha self) (data old) (data new)\<rparr>"
    by (rule F)
  show "Fadein_forward self [old, new] = Inr old" if "alpha self = 0"
    unfolding F that using map2_first [OF len] by (cases old) simp
  show "Fadein_forward self [old, new] = Inr new" if "alpha self = 1"
    unfolding F that using map2_second [OF len] sh by (cases new) simp
  have h: "map2 (\<lambda>a b. a * (1 - 1 / 2) + b * (1 / 2)) (data old) (data new)
      = map2 (\<lambda>a b. (a + b) / 2) (data old) (data new)"
    by (rule map_cong [OF refl]) (auto simp: field_simps)
  show "Fadein_forward self [old, new]
      = Inr \<lparr>shape = shape old, data = map2 (\<lambda>a b. (a + b) / 2) (data old) (data new)\<rparr>"
    if "alpha self = 1 / 2"
    unfolding F that using h by simp
qed

theorem Fadein_forward_blend_witness:
  "well_shaped \<lparr>shape = [2], data = [1, 2]\<rparr> \<and> well_shaped \<lparr>shape = [2], data = [5, 8]\<rparr>
   \<and> well_shaped \<lparr>shape = [1], data = [5]\<rparr>
   \<and> broadcast_shapes [1] [2] = Inr [2]
   \<and> (\<exists>out. Fadein_forward (Fadein_init (1 / 2))
               [\<lparr>shape = [1], data = [5]\<rparr>, \<lparr>shape = [2], data = [1, 2]\<rparr>] = Inr out
          \<and> shape out = [2] \<and> elem out [0] = 3 \<and> elem out [1] = 7 / 2)
   \<and> Fadein_forward (Fadein_init 0) [\<lparr>shape = [2], data = [1, 2]\<rparr>, \<lparr>shape = [2], data = [5, 8]\<rparr>]
       = Inr \<lparr>shape = [2], data = [1, 2]\<rparr>
   \<and> Fadein_forward (Fadein_init 1) [\<lparr>shape = [2], data = [1, 2]\<rparr>, \<lparr>shape = [2], data = [5, 8]\<rparr>]
       = Inr \<lparr>shape = [2], data = [5, 8]\<rparr>
   \<and> Fadein_forward (Fadein_init (1 / 2)) [\<lparr>shape = [2], data = [1, 2]\<rparr>, \<lparr>shape = [2], data = [5, 8]\<rparr>]
       = Inr \<lparr>shape = [2], data = [3, 5]\<rparr>"
proof -
  let ?a = "\<lparr>shape = [2], data = [1, 2]\<rparr>" and ?b = "\<lparr>shape = [2], data = [5, 8]\<rparr>"
  let ?o = "\<lparr>shape = [1], data = [5]\<rparr>"
  have w: "well_shaped ?a" "well_shaped ?b" "well_shaped ?o"
    by (simp_all add: well_shaped_def)
  have bs: "broadcast_shapes (shape ?o) (shape ?a) = Inr [2]"
    by (simp add: broadcast_shapes_def)
  from Fadein_forward_blend [OF w(3) w(1), of "Fadein_init (1 / 2)", THEN conjunct1, rule_format, OF bs]
  obtain out where o: "Fadein_forward (Fadein_init (1 / 2)) [?o, ?a] = Inr out" "shape out = [2]"
    and e: "\<forall>is. valid_index [2] is \<longrightarrow>
          elem out is = elem ?o (bindex (shape ?o) is) * (1 - alpha (Fadein_init (1 / 2)))
                        + elem ?a (bindex (shape ?a) is) * alpha (Fadein_init (1 / 2))"
    by (elim exE conjE)
  from e [rule_format, of "[0]"] e [rule_format, of "[1]"]
  have "elem out [0] = 3" and "elem out [1] = 7 / 2"
    by (simp_all add: bindex_def elem_def Fadein_init_def)
  with o have ex: "\<exists>out. Fadein_forward (Fadein_init (1 / 2)) [?o, ?a] = Inr out
          \<and> shape out = [2] \<and> elem out [0] = 3 \<and> elem out [1] = 7 / 2"
    by (intro exI [of _ out] conjI)
  have same: "Fadein_forward (Fadein_init 0) [?a, ?b] = Inr ?a"
    "Fadein_forward (Fadein_init 1) [?a, ?b] = Inr ?b"
    "Fadein_forward (Fadein_init (1 / 2)) [?a, ?b] = Inr \<lparr>shape = [2], data = [3, 5]\<rparr>"
    using Fadein_forward_blend [OF w(1) w(2), of "Fadein_init 0", THEN conjunct2]
      Fadein_forward_blend [OF w(1) w(2), of "Fadein_init 1", THEN conjunct2]
      Fadein_forward_blend [OF w(1) w(2), of "Fadein_init (1 / 2)", THEN conjunct2]
    by (simp_all add: Fadein_init_def)
  show ?thesis
    using w bs ex same by simp
qed

text \<open>
  C6 as stated fails for broadcast-compatible outputs of different shapes: with \<open>old\<close>
  of shape \<open>[1]\<close> and \<open>new\<close> of shape \<open>[2]\<close>, the result at \<open>alpha = 0\<close> is \<open>old\<close>
  broadcast to shape \<open>[2]\<close>, which is not the tensor \<open>old\<close>; likewise at \<open>alpha = 1\<close>
  with the shapes exchanged the result is not the tensor \<open>new\<close>.
\<close>

theorem Fadein_forward_broadcast_not_old:
  "Fadein_forward (Fadein_init 0) [\<lparr>shape = [1], data = [5]\<rparr>, \<lparr>shape = [2], data = [1, 2]\<rparr>]
     = Inr \<lparr>shape = [2], data = [5, 5]\<rparr>
   \<and> Fadein_forward (Fadein_init 0) [\<lparr>shape = [1], data = [5]\<rparr>, \<lparr>shape = [2], data = [1, 2]\<rparr>]
     \<noteq> Inr \<lparr>shape = [1], data = [5]\<rparr>
   \<and> Fadein_forward (Fadein_init 1) [\<lparr>shape = [2], data = [1, 2]\<rparr>, \<lparr>shape = [1], data = [5]\<rparr>]
     = Inr \<lparr>shape = [2], data = [5, 5]\<rparr>
   \<and> Fadein_forward (Fadein_init 1) [\<lparr>shape = [2], data = [1, 2]\<rparr>, \<lparr>shape = [1], data = [5]\<rparr>]
     \<noteq> Inr \<lparr>shape = [1], data = [5]\<rparr>"
  by (simp add: Fadein_forward_def Fadein_init_def tensor_add_def mul_scalar_def map_tensor_def
      broadcast_op_def broadcast_shapes_def tabulate_def elem_def bindex_def
      upt_0_numeral upt_Suc_0_numeral)

section \<open>Properties of the equalized layers\<close>

lemma sum_list_squares_pos:
  fixes xs :: "real list"
  assumes "\<exists>v\<in>set xs. v \<noteq> 0"
  shows "0 < (\<Sum>v\<leftarrow>xs. v\<^sup>2)"
  using assms
proof (induction xs)
  case Nil
  then show ?case by simp
next
  case (Cons a xs)
  have nn: "0 \<le> (\<Sum>v\<leftarrow>xs. v\<^sup>2)"
    by (rule sum_list_nonneg) auto
  show ?case
  proof (cases "a = 0")
    case True
    with Cons show ?thesis by simp
  next
    case False
    then have "0 < a\<^sup>2" by simp
    with nn have "0 < a\<^sup>2 + (\<Sum>v\<leftarrow>xs. v\<^sup>2)" by (rule add_pos_nonneg [rotated])
    then show ?thesis by simp
  qed
qed

lemma sum_list_divide_const:
  fixes f :: "real \<Rightarrow> real"
  shows "(\<Sum>v\<leftarrow>xs. f v / c) = (\<Sum>v\<leftarrow>xs. f v) / c"
  by (induction xs) (simp_all add: add_divide_distrib)

lemma mean_all_normalized:
  assumes "\<exists>v\<in>set (data w). v \<noteq> 0"
  shows "mean_all (pow2 (div_scalar w (sqrt (mean_all (pow2 w))))) = 1"
proof -
  define S where "S = (\<Sum>v\<leftarrow>data w. v\<^sup>2)"
  define n where "n = real (length (data w))"
  have S: "0 < S"
    unfolding S_def using assms by (rule sum_list_squares_pos)
  have n: "0 < n"
    using assms by (cases "data w") (simp_all add: n_def)
  have m: "mean_all (pow2 w) = S / n"
    by (simp add: mean_all_def pow2_def S_def n_def comp_def)
  have pos: "0 < S / n"
    using S n by simp
  have "mean_all (pow2 (div_scalar w (sqrt (S / n))))
      = (\<Sum>v\<leftarrow>data w. v\<^sup>2 / (S / n)) / n"
    using pos by (simp add: mean_all_def pow2_def div_scalar_def n_def comp_def power_divide)
  also have "\<dots> = (S / (S / n)) / n"
    by (simp only: sum_list_divide_const S_def)
  also have "\<dots> = 1"
    using S n by simp
  finally show ?thesis
    by (simp add: m)
qed

text \<open>
  C1.  For each of the three constructors, applied to an initialized weight tensor \<open>w0\<close>
  that has a non-zero element: the stored scale is \<open>sqrt (mean (w0\<^sup>2))\<close>, the stored
  weight is \<open>w0\<close> divided elementwise by that scale, and the mean of the squares of the
  stored weight is 1 (exactly, in real arithmetic).  The scale is a field written by the
  constructor only: replacing the weight afterwards, as training does, leaves it at the
  value computed from \<open>w0\<close>.
\<close>

theorem Equalized_init_scale:
  assumes "\<exists>v\<in>set (data w0). v \<noteq> 0"
  shows "conv_scale (EqualizedConv2d_init in_f out_f k s p b w0) = sqrt (mean_all (pow2 w0))
    \<and> conv_weight (EqualizedConv2d_init in_f out_f k s p b w0)
        = div_scalar w0 (conv_scale (EqualizedConv2d_init in_f out_f k s p b w0))
    \<and> mean_all (pow2 (conv_weight (EqualizedConv2d_init in_f out_f k s p b w0))) = 1
    \<and> conv_scale (EqualizedDeconv2d_init in_f out_f k s p b w0) = sqrt (mean_all (pow2 w0))
    \<and> conv_weight (EqualizedDeconv2d_init in_f out_f k s p b w0)
        = div_scalar w0 (conv_scale (EqualizedDeconv2d_init in_f out_f k s p b w0))
    \<and> mean_all (pow2 (conv_weight (EqualizedDeconv2d_init in_f out_f k s p b w0))) = 1
    \<and> lin_scale (EqualizedLinear_init in_f out_f b w0) = sqrt (mean_all (pow2 w0))
    \<and> lin_weight (EqualizedLinear_init in_f out_f b w0)
        = div_scalar w0 (lin_scale (EqualizedLinear_init in_f out_f b w0))
    \<and> mean_all (pow2 (lin_weight (EqualizedLinear_init in_f out_f b w0))) = 1
    \<and> conv_scale ((EqualizedConv2d_init in_f out_f k s p b w0)\<lparr>conv_weight := w'\<rparr>)
        = sqrt (mean_all (pow2 w0))
    \<and> conv_scale ((EqualizedDeconv2d_init in_f out_f k s p b w0)\<lparr>conv_weight := w'\<rparr>)
        = sqrt (mean_all (pow2 w0))
    \<and> lin_scale ((EqualizedLinear_init in_f out_f b w0)\<lparr>lin_weight := w'\<rparr>)
        = sqrt (mean_all (pow2 w0))"
  using mean_all_normalized [OF assms]
  by (simp add: EqualizedConv2d_init_def EqualizedDeconv2d_init_def EqualizedLinear_init_def Let_def)

theorem Equalized_init_scale_witness:
  "(\<exists>v\<in>set (data \<lparr>shape = [1, 2], data = [3, 4]\<rparr>). v \<noteq> 0)
   \<and> conv_scale (EqualizedConv2d_init 2 1 1 1 0 True \<lparr>shape = [1, 2, 1, 1], data = [3, 4]\<rparr>)
       = sqrt (25 / 2)
   \<and> mean_all (pow2 (conv_weight
         (EqualizedConv2d_init 2 1 1 1 0 True \<lparr>shape = [1, 2, 1, 1], data = [3, 4]\<rparr>))) = 1
   \<and> lin_scale (EqualizedLinear_init 2 1 True \<lparr>shape = [1, 2], data = [3, 4]\<rparr>) = sqrt (25 / 2)
   \<and> lin_weight (EqualizedLinear_init 2 1 True \<lparr>shape = [1, 2], data = [3, 4]\<rparr>)
       = \<lparr>shape = [1, 2], data = [3 / sqrt (25 / 2), 4 / sqrt (25 / 2)]\<rparr>
   \<and> mean_all (pow2 (lin_weight
         (EqualizedLinear_init 2 1 True \<lparr>shape = [1, 2], data = [3, 4]\<rparr>))) = 1"
proof -
  have m: "mean_all (pow2 \<lparr>shape = s, data = [3, 4]\<rparr>) = 25 / 2" for s
    by (simp add: mean_all_def pow2_def map_tensor_def)
  show ?thesis
    using Equalized_init_scale [of "\<lparr>shape = [1, 2, 1, 1], data = [3, 4]\<rparr>" 2 1 1 1 0 True]
      Equalized_init_scale [of "\<lparr>shape = [1, 2], data = [3, 4]\<rparr>" 2 1 1 1 0 True]
    by (auto simp: m div_scalar_def map_tensor_def)
qed

lemma flat_index_less:
  fixes i k n m :: nat
  assumes "i < n" and "k < m"
  shows "i * m + k < n * m"
proof -
  have "i * m + k < i * m + m"
    using assms(2) by simp
  also have "\<dots> = Suc i * m"
    by simp
  also have "\<dots> \<le> n * m"
    using assms(1) by (intro mult_le_mono1) simp
  finally show ?thesis .
qed

lemma EqualizedLinear_forward_value:
  assumes sh: "shape x = n # rest" and n: "0 < n" and wfx: "well_shaped x"
    and w: "shape (lin_weight self) = [out_features, prod_list rest]"
    and bp: "lin_bias_param self = (if lin_bias self then Some b else None)"
    and b: "shape b = [out_features]"
  shows "\<exists>out. EqualizedLinear_forward self x = Inr out \<and> shape out = [n, out_features]
    \<and> (\<forall>i j. i < n \<and> j < out_features \<longrightarrow>
          elem out [i, j]
            = (\<Sum>k\<leftarrow>[0..<prod_list rest].
                 (data x ! (i * prod_list rest + k) * lin_scale self) * elem (lin_weight self) [j, k])
              + (if lin_bias self then elem b [j] else 0))"
proof -
  define m where "m = prod_list rest"
  define x1 where "x1 = mul_scalar x (lin_scale self)"
  define x2 where "x2 = x1\<lparr>shape := [n, m]\<rparr>"
  define y where "y = tabulate [n, out_features]
    (\<lambda>is. \<Sum>i\<leftarrow>[0..<m]. elem x2 (butlast is @ [i]) * elem (lin_weight self) [last is, i])"
  define b1 where "b1 = b\<lparr>shape := [1, out_features]\<rparr>"
  define b2 where "b2 = tabulate [n, out_features] (\<lambda>is. elem b1 (bindex [1, out_features] is))"
  define out where "out = tabulate [n, out_features]
    (\<lambda>is. elem y (bindex [n, out_features] is) + elem b2 (bindex [n, out_features] is))"
  have s1: "size_dim x1 0 = Inr n"
    by (simp add: size_dim_def x1_def mul_scalar_def sh)
  have r1: "view x1 [int n, - 1] = Inr x2"
    using infer_size_flatten [OF n, of m]
    by (simp add: view_def numel_def x1_def mul_scalar_def sh x2_def m_def)
  have r2: "linear x2 (lin_weight self) = Inr y"
    by (simp add: linear_def w x2_def y_def m_def)
  have r3: "view b [1, - 1] = Inr b1"
    using infer_size_flatten [of 1 out_features]
    by (simp add: view_def numel_def b b1_def)
  have r4: "expand_as b1 y = Inr b2"
    by (auto simp: expand_as_def broadcast_shapes_def b1_def y_def b2_def)
  have r5: "tensor_add y b2 = Inr out"
    by (simp add: tensor_add_def broadcast_op_def broadcast_shapes_same y_def b2_def out_def)
  have f: "EqualizedLinear_forward self x = Inr (if lin_bias self then out else y)"
    using s1 r1 r2 r3 r4 r5 bp
    by (simp add: EqualizedLinear_forward_def Let_def x1_def [symmetric])
  have ex2: "elem x2 [i, k] = data x ! (i * m + k) * lin_scale self" if "i < n" "k < m" for i k
  proof -
    have "i * m + k < length (data x)"
      using flat_index_less [OF that] wfx by (simp add: well_shaped_def sh m_def)
    then show ?thesis
      by (simp add: x2_def x1_def mul_scalar_def elem_def)
  qed
  have ey: "elem y [i, j] = (\<Sum>k\<leftarrow>[0..<m]. (data x ! (i * m + k) * lin_scale self) * elem (lin_weight self) [j, k])"
    if ij: "i < n" "j < out_features" for i j
  proof -
    have "map (\<lambda>k. elem x2 [i, k] * elem (lin_weight self) [j, k]) [0..<m]
        = map (\<lambda>k. (data x ! (i * m + k) * lin_scale self) * elem (lin_weight self) [j, k]) [0..<m]"
      by (rule map_cong [OF refl]) (simp add: ex2 ij)
    then have "(\<Sum>k\<leftarrow>[0..<m]. elem x2 [i, k] * elem (lin_weight self) [j, k])
        = (\<Sum>k\<leftarrow>[0..<m]. (data x ! (i * m + k) * lin_scale self) * elem (lin_weight self) [j, k])"
      by (rule arg_cong)
    then show ?thesis
      using ij by (simp add: y_def elem_tabulate)
  qed
  have eb: "elem b2 [i, j] = elem b [j]" if ij: "i < n" "j < out_features" for i j
  proof -
    have "bindex [1, out_features] [i, j] = [0, j]"
      using ij by (simp add: bindex_def keep_index)
    moreover have "elem b2 [i, j] = elem b1 (bindex [1, out_features] [i, j])"
      using ij by (simp add: b2_def elem_tabulate)
    ultimately show ?thesis
      by (simp add: b1_def elem_def b)
  qed
  have eo: "elem out [i, j] = elem y [i, j] + elem b [j]" if ij: "i < n" "j < out_features" for i j
  proof -
    have "bindex [n, out_features] [i, j] = [i, j]"
      using ij by (intro bindex_valid) simp
    then show ?thesis
      using ij by (simp add: out_def elem_tabulate eb)
  qed
  show ?thesis
  proof (cases "lin_bias self")
    case True
    then show ?thesis
      using f eo ey by (simp add: out_def m_def)
  next
    case False
    then show ?thesis
      using f ey by (simp add: y_def m_def)
  qed
qed

text \<open>
  C2.  Let \<open>x\<close> have a batch dimension \<open>n > 0\<close> and remaining dimensions whose product
  is the number of input features of the weight \<open>[out_features, in_features]\<close>.  Then
  the forward pass returns a tensor of shape \<open>[n, out_features]\<close> whose value at
  \<open>(i, j)\<close> is \<open>\<Sum>k. (flat x (i, k) * scale) * W (j, k)\<close>, plus \<open>b j\<close> when the bias is
  enabled; \<open>flat x (i, k)\<close> is element \<open>i * in_features + k\<close> of \<open>x\<close> in row-major
  order.  The constructor sets the bias parameter to a zero vector of length
  \<open>out_features\<close> when the bias is enabled, and to nothing otherwise.
\<close>

theorem EqualizedLinear_forward_formula:
  assumes "shape x = n # rest" and "0 < n" and "well_shaped x"
    and "shape (lin_weight self) = [out_features, prod_list rest]"
    and "lin_bias_param self = (if lin_bias self then Some b else None)"
    and "shape b = [out_features]"
  shows "(\<exists>out. EqualizedLinear_forward self x = Inr out \<and> shape out = [n, out_features]
      \<and> (\<forall>i j. i < n \<and> j < out_features \<longrightarrow>
            elem out [i, j]
              = (\<Sum>k\<leftarrow>[0..<prod_list rest].
                   (data x ! (i * prod_list rest + k) * lin_scale self) * elem (lin_weight self) [j, k])
                + (if lin_bias self then elem b [j] else 0)))
    \<and> lin_bias_param (EqualizedLinear_init in_f out_f True w0) = Some (zeros out_f)
    \<and> lin_bias_param (EqualizedLinear_init in_f out_f False w0) = None
    \<and> shape (zeros out_f) = [out_f]
    \<and> (\<forall>j. j < out_f \<longrightarrow> elem (zeros out_f) [j] = 0)"
  using EqualizedLinear_forward_value [OF assms]
  by (simp add: EqualizedLinear_init_def zeros_def elem_def Let_def)

theorem EqualizedLinear_forward_formula_witness:
  "shape \<lparr>shape = [2, 1, 2], data = [1, 2, 3, 4]\<rparr> = [2, 1, 2]
   \<and> well_shaped \<lparr>shape = [2, 1, 2], data = [1, 2, 3, 4]\<rparr>
   \<and> EqualizedLinear_forward
         \<lparr>lin_bias = True, lin_weight = \<lparr>shape = [1, 2], data = [3, 4]\<rparr>,
          lin_bias_param = Some \<lparr>shape = [1], data = [10]\<rparr>, lin_scale = 2\<rparr>
         \<lparr>shape = [2, 1, 2], data = [1, 2, 3, 4]\<rparr>
       = Inr \<lparr>shape = [2, 1], data = [32, 60]\<rparr>
   \<and> elem \<lparr>shape = [2, 1], data = [32, 60]\<rparr> [1, 0]
       = (3 * 2) * 3 + (4 * 2) * 4 + 10"
proof -
  let ?self = "\<lparr>lin_bias = True, lin_weight = \<lparr>shape = [1, 2], data = [3, 4]\<rparr>,
          lin_bias_param = Some \<lparr>shape = [1], data = [10]\<rparr>, lin_scale = 2\<rparr>"
  let ?x = "\<lparr>shape = [2, 1, 2], data = [1, 2, 3, 4]\<rparr>"
  have e: "EqualizedLinear_forward ?self ?x = Inr \<lparr>shape = [2, 1], data = [32, 60]\<rparr>"
    by (simp add: EqualizedLinear_forward_def Let_def mul_scalar_def map_tensor_def size_dim_def
        view_def numel_def infer_size_def linear_def expand_as_def broadcast_shapes_def
        tensor_add_def broadcast_op_def tabulate_def elem_def bindex_def
        upt_0_numeral upt_Suc_0_numeral)
  from EqualizedLinear_forward_formula
    [of ?x 2 "[1, 2]" ?self 1 "\<lparr>shape = [1], data = [10]\<rparr>", THEN conjunct1]
  obtain out where "EqualizedLinear_forward ?self ?x = Inr out"
    and "\<forall>i j. i < 2 \<and> j < 1 \<longrightarrow>
            elem out [i, j]
              = (\<Sum>k\<leftarrow>[0..<prod_list [1, 2]].
                   (data ?x ! (i * prod_list [1, 2] + k) * lin_scale ?self) * elem (lin_weight ?self) [j, k])
                + (if lin_bias ?self then elem \<lparr>shape = [1], data = [10]\<rparr> [j] else 0)"
    by (auto simp: well_shaped_def)
  with e have "elem \<lparr>shape = [2, 1], data = [32, 60]\<rparr> [1, 0]
      = (\<Sum>k\<leftarrow>[0..<prod_list [1, 2]].
           (data ?x ! (1 * prod_list [1, 2] + k) * lin_scale ?self) * elem (lin_weight ?self) [0, k])
        + (if lin_bias ?self then elem \<lparr>shape = [1], data = [10]\<rparr> [0] else 0)"
    by auto
  then have "elem \<lparr>shape = [2, 1], data = [32, 60]\<rparr> [1, 0] = (3 * 2) * 3 + (4 * 2) * 4 + 10"
    by (simp add: elem_def upt_0_numeral upt_Suc_0_numeral)
  with e show ?thesis
    by (simp add: well_shaped_def)
qed

end
